theory Spec2Isabelle
  imports Complex_Main "HOL-Library.AList" "HOL-Library.Multiset"
begin

section \<open>Values exchanged with the server\<close>

text \<open>
  The values that \<^verbatim>\<open>json.loads\<close> produces and \<^verbatim>\<open>json.dumps\<close> accepts. A Python
  \<^verbatim>\<open>dict\<close> is an association list in insertion order (its keys are distinct in
  Python; \<open>map_of\<close> reads the first binding). A finite \<^verbatim>\<open>float\<close> is carried by its
  exact rational value, which is what decides \<^verbatim>\<open>1.0 == 1\<close>.
\<close>

datatype json =
    JNull
  | JBool bool
  | JInt int
  | JFloat rat
  | JStr string
  | JArr "json list"
  | JObj "(string \<times> json) list"

type_synonym pydict = "(string \<times> json) list"

text \<open>
  The exceptions that occur in \<^verbatim>\<open>websocket_client.py\<close> and \<^verbatim>\<open>hyperliquid/client.py\<close>.
  \<open>PyException\<close> is the builtin \<^verbatim>\<open>Exception(msg)\<close>, \<open>ConnectionClosed\<close> is
  \<^verbatim>\<open>websockets.exceptions.ConnectionClosed\<close>, \<open>TimeoutError\<close> is
  \<^verbatim>\<open>asyncio.TimeoutError\<close>. \<open>CancelledError\<close> derives from \<^verbatim>\<open>BaseException\<close>
  (Python 3.8 and later, which \<^verbatim>\<open>setup.py\<close> requires), so \<^verbatim>\<open>except Exception\<close>
  does not catch it.
\<close>

datatype exn =
    APIError string
  | PyException string
  | ConnectionClosed
  | TimeoutError
  | CancelledError
  | AttributeError
  | TypeError
  | KeyError
  | JSONDecodeError

fun is_Exception :: "exn \<Rightarrow> bool" where
  "is_Exception CancelledError = False"
| "is_Exception _ = True"

subsection \<open>Dictionary and container operations of Python\<close>

text \<open>\<^verbatim>\<open>d.get(k, default)\<close>: only a dict has the method.\<close>

definition dict_get :: "json \<Rightarrow> string \<Rightarrow> json \<Rightarrow> exn + json" where
  "dict_get d k dflt =
     (case d of
        JObj kvs \<Rightarrow> Inr (case map_of kvs k of None \<Rightarrow> dflt | Some v \<Rightarrow> v)
      | _ \<Rightarrow> Inl AttributeError)"

text \<open>\<^verbatim>\<open>d[k]\<close> with a string key.\<close>

definition py_getitem :: "json \<Rightarrow> string \<Rightarrow> exn + json" where
  "py_getitem d k =
     (case d of
        JObj kvs \<Rightarrow> (case map_of kvs k of None \<Rightarrow> Inl KeyError | Some v \<Rightarrow> Inr v)
      | _ \<Rightarrow> Inl TypeError)"

text \<open>\<^verbatim>\<open>for x in v\<close>: a list gives its elements, a dict its keys, a string its characters.\<close>

definition py_iter :: "json \<Rightarrow> exn + json list" where
  "py_iter v =
     (case v of
        JArr xs \<Rightarrow> Inr xs
      | JObj kvs \<Rightarrow> Inr (map (\<lambda>kv. JStr (fst kv)) kvs)
      | JStr s \<Rightarrow> Inr (map (\<lambda>c. JStr [c]) s)
      | _ \<Rightarrow> Inl TypeError)"

fun is_substring :: "string \<Rightarrow> string \<Rightarrow> bool" where
  "is_substring p [] = (p = [])"
| "is_substring p (c # cs) = (take (length p) (c # cs) = p \<or> is_substring p cs)"

text \<open>\<^verbatim>\<open>k in v\<close> for a string \<open>k\<close>.\<close>

definition py_contains :: "string \<Rightarrow> json \<Rightarrow> exn + bool" where
  "py_contains k v =
     (case v of
        JObj kvs \<Rightarrow> Inr (k \<in> fst ` set kvs)
      | JArr xs \<Rightarrow> Inr (JStr k \<in> set xs)
      | JStr s \<Rightarrow> Inr (is_substring k s)
      | _ \<Rightarrow> Inl TypeError)"

text \<open>
  The key of an \<^verbatim>\<open>int\<close>-keyed dict that a value selects, by Python's hashing and
  equality: \<^verbatim>\<open>True == 1\<close>, \<^verbatim>\<open>False == 0\<close>, \<^verbatim>\<open>2.0 == 2\<close>; \<^verbatim>\<open>None\<close> and strings
  equal no integer; a list or a dict is unhashable.
\<close>

fun key_of :: "json \<Rightarrow> exn + int option" where
  "key_of (JInt i) = Inr (Some i)"
| "key_of (JBool b) = Inr (Some (if b then 1 else 0))"
| "key_of (JFloat r) = Inr (if of_int \<lfloor>r\<rfloor> = r then Some \<lfloor>r\<rfloor> else None)"
| "key_of JNull = Inr None"
| "key_of (JStr s) = Inr None"
| "key_of (JArr xs) = Inl TypeError"
| "key_of (JObj kvs) = Inl TypeError"

text \<open>\<^verbatim>\<open>d.update(other)\<close>: each pair of \<open>other\<close> in turn, a present key keeps its place.\<close>

definition dict_update :: "pydict \<Rightarrow> pydict \<Rightarrow> pydict" where
  "dict_update d other = foldl (\<lambda>acc kv. AList.update (fst kv) (snd kv) acc) d other"

subsection \<open>Formatting\<close>

fun show_nat :: "nat \<Rightarrow> string" where
  "show_nat n =
     (if n < 10 then [''0123456789'' ! n]
      else show_nat (n div 10) @ [''0123456789'' ! (n mod 10)])"

declare show_nat.simps [simp del]

definition show_int :: "int \<Rightarrow> string" where
  "show_int i = (if i < 0 then CHR ''-'' # show_nat (nat (- i)) else show_nat (nat i))"

text \<open>
  \<^verbatim>\<open>str(v)\<close> as an f-string formats it. The text of a container or of a float is Python's
  \<^verbatim>\<open>repr\<close>, which is taken as the parameter \<open>repr\<close>.
\<close>

definition py_str :: "(json \<Rightarrow> string) \<Rightarrow> json \<Rightarrow> string" where
  "py_str repr v =
     (case v of
        JStr s \<Rightarrow> s
      | JNull \<Rightarrow> ''None''
      | JBool b \<Rightarrow> (if b then ''True'' else ''False'')
      | JInt i \<Rightarrow> show_int i
      | _ \<Rightarrow> repr v)"

section \<open>The state of a WebSocketClient\<close>

text \<open>
  The connection object returned by \<^verbatim>\<open>websockets.connect\<close>: whether it is open, and the
  frames handed to \<^verbatim>\<open>send\<close> so far (each is the value given to \<^verbatim>\<open>json.dumps\<close>).
\<close>

record conn =
  is_open :: bool
  sent :: "json list"

text \<open>An \<^verbatim>\<open>asyncio.Future\<close>.\<close>

datatype fut = Pending | Result json | Failed exn | Cancelled

fun fut_done :: "fut \<Rightarrow> bool" where
  "fut_done Pending = False"
| "fut_done _ = True"

text \<open>
  The attributes set by \<^verbatim>\<open>__init__\<close>, and the futures the client has created:
  \<open>pending_requests\<close> maps a request id to the address of its future, \<open>futures\<close> is
  the store of future objects and \<open>next_future\<close> the next unused address.
\<close>

record ws_state =
  ws_url :: string
  environment :: string
  api_key :: "string option"
  websocket :: "conn option"
  running :: bool
  request_counter :: int
  pending_requests :: "(int \<times> nat) list"
  futures :: "nat \<Rightarrow> fut"
  next_future :: nat

definition WebSocketClient_init :: "string \<Rightarrow> string \<Rightarrow> string option \<Rightarrow> ws_state" where
  "WebSocketClient_init url env key =
     \<lparr> ws_url = (if env \<noteq> [] then url @ ''?env='' @ env else url),
       environment = env,
       api_key = key,
       websocket = None,
       running = False,
       request_counter = 0,
       pending_requests = [],
       futures = (\<lambda>_. Pending),
       next_future = 0 \<rparr>"

text \<open>
  \<^verbatim>\<open>connect\<close>: the argument is what \<^verbatim>\<open>websockets.connect\<close> did, \<open>Inl msg\<close> when it raised
  an exception whose text is \<open>msg\<close>. The receive loop that \<^verbatim>\<open>connect\<close> starts is
  \<open>handler_start\<close> below.
\<close>

definition connect :: "ws_state \<Rightarrow> string + unit \<Rightarrow> exn + ws_state" where
  "connect s outcome =
     (case outcome of
        Inl msg \<Rightarrow> Inl (APIError (''WebSocket connection failed: '' @ msg))
      | Inr _ \<Rightarrow> Inr (s\<lparr>websocket := Some \<lparr>is_open = True, sent = []\<rparr>, running := True\<rparr>))"

text \<open>
  \<^verbatim>\<open>disconnect\<close> up to its suspension in \<^verbatim>\<open>await self.websocket.close()\<close>: it clears
  \<open>running\<close> and closes the connection if there is one. The whole call, with what the
  receive loop does while the call is suspended, is \<open>disconnect\<close> below.
\<close>

definition disconnect_close :: "ws_state \<Rightarrow> ws_state" where
  "disconnect_close s =
     (let s1 = s\<lparr>running := False\<rparr>
      in case websocket s1 of
           None \<Rightarrow> s1
         | Some c \<Rightarrow> s1\<lparr>websocket := Some (c\<lparr>is_open := False\<rparr>)\<rparr>)"

section \<open>The receive loop\<close>

text \<open>
  The branch of \<^verbatim>\<open>_process_message\<close> for \<^verbatim>\<open>channel == "post"\<close>. Logging calls have no
  effect on the client and are left out.
\<close>

definition handle_post :: "ws_state \<Rightarrow> json \<Rightarrow> exn + ws_state" where
  "handle_post s data =
     (case dict_get data ''data'' (JObj []) of
        Inl e \<Rightarrow> Inl e
      | Inr response_data \<Rightarrow>
          (case dict_get response_data ''id'' JNull of
             Inl e \<Rightarrow> Inl e
           | Inr request_id \<Rightarrow>
               (case key_of request_id of
                  Inl e \<Rightarrow> Inl e
                | Inr None \<Rightarrow> Inr s
                | Inr (Some k) \<Rightarrow>
                    (case map_of (pending_requests s) k of
                       None \<Rightarrow> Inr s
                     | Some h \<Rightarrow>
                         Inr (s\<lparr>pending_requests := AList.delete k (pending_requests s),
                                futures := (if fut_done (futures s h) then futures s
                                            else (futures s)(h := Result response_data))\<rparr>)))))"

text \<open>The loop over \<^verbatim>\<open>orderUpdates\<close> entries: it only reads and logs.\<close>

fun order_updates :: "json list \<Rightarrow> exn + unit" where
  "order_updates [] = Inr ()"
| "order_updates (order_update # rest) =
     (case dict_get order_update ''order'' (JObj []) of
        Inl e \<Rightarrow> Inl e
      | Inr order_info \<Rightarrow>
          (case dict_get order_update ''status'' (JStr ''unknown'') of
             Inl e \<Rightarrow> Inl e
           | Inr status \<Rightarrow>
               (case dict_get order_info ''oid'' (JStr ''unknown'') of
                  Inl e \<Rightarrow> Inl e
                | Inr oid \<Rightarrow> order_updates rest)))"

definition handle_order_updates :: "json \<Rightarrow> exn + unit" where
  "handle_order_updates data =
     (case dict_get data ''data'' (JArr []) of
        Inl e \<Rightarrow> Inl e
      | Inr order_data \<Rightarrow>
          (case py_iter order_data of Inl e \<Rightarrow> Inl e | Inr xs \<Rightarrow> order_updates xs))"

definition handle_subscription_response :: "json \<Rightarrow> exn + unit" where
  "handle_subscription_response data =
     (case dict_get data ''data'' (JObj []) of
        Inl e \<Rightarrow> Inl e
      | Inr subscription_data \<Rightarrow>
          (case dict_get subscription_data ''method'' (JStr ''unknown'') of
             Inl e \<Rightarrow> Inl e
           | Inr method \<Rightarrow>
               (case dict_get subscription_data ''subscription'' (JObj []) of
                  Inl e \<Rightarrow> Inl e
                | Inr sub \<Rightarrow>
                    (case dict_get sub ''type'' (JStr ''unknown'') of
                       Inl e \<Rightarrow> Inl e
                     | Inr sub_type \<Rightarrow> Inr ()))))"

definition handle_feed :: "json \<Rightarrow> exn + unit" where
  "handle_feed data =
     (case dict_get data ''channel'' JNull of
        Inl e \<Rightarrow> Inl e
      | Inr channel \<Rightarrow>
          if channel = JStr ''allMids'' then
            (case py_getitem data ''data'' of
               Inl e \<Rightarrow> Inl e
             | Inr d \<Rightarrow>
                 (case py_getitem d ''mids'' of
                    Inl e \<Rightarrow> Inl e
                  | Inr mids_data \<Rightarrow>
                      (case py_contains ''ETH'' mids_data of
                         Inl e \<Rightarrow> Inl e
                       | Inr b \<Rightarrow>
                           if b then
                             (case py_getitem mids_data ''ETH'' of
                                Inl e \<Rightarrow> Inl e
                              | Inr _ \<Rightarrow> Inr ())
                           else Inr ())))
          else Inr ())"

text \<open>
  The body of the \<^verbatim>\<open>try\<close> of \<^verbatim>\<open>_process_message\<close>. The message is \<open>None\<close> when
  \<^verbatim>\<open>json.loads\<close> rejects the frame and \<open>Some data\<close> when it parses to \<open>data\<close>.
\<close>

definition process_message_body :: "ws_state \<Rightarrow> json option \<Rightarrow> exn + ws_state" where
  "process_message_body s message =
     (case message of
        None \<Rightarrow> Inl JSONDecodeError
      | Some data \<Rightarrow>
          (case dict_get data ''channel'' JNull of
             Inl e \<Rightarrow> Inl e
           | Inr channel \<Rightarrow>
               if channel = JStr ''post'' then handle_post s data
               else if channel = JStr ''orderUpdates'' then
                 (case handle_order_updates data of Inl e \<Rightarrow> Inl e | Inr _ \<Rightarrow> Inr s)
               else if channel = JStr ''subscriptionResponse'' then
                 (case handle_subscription_response data of Inl e \<Rightarrow> Inl e | Inr _ \<Rightarrow> Inr s)
               else
                 (case py_contains ''channel'' data of
                    Inl e \<Rightarrow> Inl e
                  | Inr b \<Rightarrow>
                      if b then (case handle_feed data of Inl e \<Rightarrow> Inl e | Inr _ \<Rightarrow> Inr s)
                      else Inr s)))"

text \<open>
  \<^verbatim>\<open>_process_message\<close>: the two \<^verbatim>\<open>except\<close> clauses catch every \<^verbatim>\<open>Exception\<close>, log it
  and return; the body changes the client only in its last step, so a caught exception
  leaves the client as it was.
\<close>

definition process_message :: "ws_state \<Rightarrow> json option \<Rightarrow> exn + ws_state" where
  "process_message s message =
     (case process_message_body s message of
        Inl e \<Rightarrow> (if is_Exception e then Inr s else Inl e)
      | Inr s' \<Rightarrow> Inr s')"

text \<open>
  The \<^verbatim>\<open>finally\<close> of \<^verbatim>\<open>_message_handler\<close>: every pending future that is not done
  gets \<^verbatim>\<open>Exception("Connection closed")\<close>, then the table is cleared.
\<close>

fun fail_pending :: "(int \<times> nat) list \<Rightarrow> (nat \<Rightarrow> fut) \<Rightarrow> (nat \<Rightarrow> fut)" where
  "fail_pending [] f = f"
| "fail_pending ((request_id, h) # rest) f =
     fail_pending rest
       (if fut_done (f h) then f else f(h := Failed (PyException ''Connection closed'')))"

definition handler_finally :: "ws_state \<Rightarrow> ws_state" where
  "handler_finally s =
     s\<lparr>futures := fail_pending (pending_requests s) (futures s), pending_requests := []\<rparr>"

text \<open>
  The task running \<^verbatim>\<open>_message_handler\<close> is either suspended in \<^verbatim>\<open>recv()\<close> or has
  returned (after its \<^verbatim>\<open>finally\<close>).
\<close>

datatype handler = Awaiting ws_state | Finished ws_state

fun handler_state :: "handler \<Rightarrow> ws_state" where
  "handler_state (Awaiting s) = s"
| "handler_state (Finished s) = s"

text \<open>The test of the \<^verbatim>\<open>while\<close>: the loop goes on to \<^verbatim>\<open>recv()\<close> or leaves.\<close>

definition handler_loop :: "ws_state \<Rightarrow> handler" where
  "handler_loop s =
     (if running s \<and> websocket s \<noteq> None then Awaiting s else Finished (handler_finally s))"

text \<open>
  The \<^verbatim>\<open>except\<close> clauses inside the loop: \<^verbatim>\<open>ConnectionClosed\<close> breaks, any other
  \<^verbatim>\<open>Exception\<close> is logged and the loop goes on; what is not an \<^verbatim>\<open>Exception\<close> leaves
  the function through the \<^verbatim>\<open>finally\<close>.
\<close>

definition handler_except :: "ws_state \<Rightarrow> exn \<Rightarrow> handler" where
  "handler_except s e =
     (if e = ConnectionClosed then Finished (handler_finally s)
      else if is_Exception e then handler_loop s
      else Finished (handler_finally s))"

text \<open>What \<^verbatim>\<open>recv()\<close> gives the suspended loop: a frame, or an exception.\<close>

datatype recv_outcome = Message "json option" | Raised exn

definition handler_resume :: "ws_state \<Rightarrow> recv_outcome \<Rightarrow> handler" where
  "handler_resume s ev =
     (case ev of
        Raised e \<Rightarrow> handler_except s e
      | Message m \<Rightarrow>
          (case process_message s m of
             Inl e \<Rightarrow> handler_except s e
           | Inr s' \<Rightarrow> handler_loop s'))"


section \<open>send\_request\<close>

text \<open>
  The locals of a \<^verbatim>\<open>send_request\<close> call suspended in \<^verbatim>\<open>asyncio.wait_for\<close>.
\<close>

record call =
  call_id :: int
  call_future :: nat

text \<open>
  The \<^verbatim>\<open>except\<close> clauses of \<^verbatim>\<open>send_request\<close>: a timeout becomes an \<^verbatim>\<open>APIError\<close>,
  any other \<^verbatim>\<open>Exception\<close> is raised again, both after \<^verbatim>\<open>pop(request_id, None)\<close>.
\<close>

definition send_request_except :: "ws_state \<Rightarrow> int \<Rightarrow> exn \<Rightarrow> ws_state \<times> exn" where
  "send_request_except s request_id e =
     (if e = TimeoutError then
        (s\<lparr>pending_requests := AList.delete request_id (pending_requests s)\<rparr>,
         APIError (''Request '' @ show_int request_id @ '' timed out''))
      else if is_Exception e then
        (s\<lparr>pending_requests := AList.delete request_id (pending_requests s)\<rparr>, e)
      else (s, e))"

text \<open>
  \<^verbatim>\<open>send_request\<close> up to its suspension in \<^verbatim>\<open>wait_for\<close>. The result is the client, the
  caller's dictionary as the call leaves it, and the suspended call or the exception
  raised.
\<close>

definition send_request_start :: "ws_state \<Rightarrow> pydict \<Rightarrow> ws_state \<times> pydict \<times> (exn + call)" where
  "send_request_start s request =
     (case websocket s of
        None \<Rightarrow> (s, request, Inl (APIError ''WebSocket not connected''))
      | Some c \<Rightarrow>
          if \<not> running s then (s, request, Inl (APIError ''WebSocket not connected''))
          else
            let request_id = request_counter s + 1;
                request' = (if ''id'' \<in> fst ` set request then request
                            else AList.update ''id'' (JInt request_id) request);
                h = next_future s;
                s1 = s\<lparr>request_counter := request_id,
                       pending_requests := AList.update request_id h (pending_requests s),
                       futures := (futures s)(h := Pending),
                       next_future := Suc h\<rparr>
            in if is_open c then
                 (s1\<lparr>websocket := Some (c\<lparr>sent := sent c @ [JObj request']\<rparr>)\<rparr>,
                  request',
                  Inr \<lparr>call_id = request_id, call_future = h\<rparr>)
               else
                 (case send_request_except s1 request_id ConnectionClosed of
                    (s2, e) \<Rightarrow> (s2, request', Inl e)))"

text \<open>\<^verbatim>\<open>future.cancel()\<close>.\<close>

definition cancel :: "ws_state \<Rightarrow> nat \<Rightarrow> ws_state" where
  "cancel s h =
     s\<lparr>futures := (if fut_done (futures s h) then futures s else (futures s)(h := Cancelled))\<rparr>"

text \<open>
  How the wait ends: the future is done, the timeout elapses, or the caller's task is
  cancelled from outside.
\<close>

datatype wake = Woken | TimedOut | TaskCancelled

text \<open>
  \<^verbatim>\<open>asyncio.wait_for(future, timeout)\<close>: \<open>None\<close> while the call stays suspended. A future
  that is already done gives its outcome, whatever ends the wait (when a cancellation
  finds the future done, \<^verbatim>\<open>wait_for\<close> returns \<^verbatim>\<open>fut.result()\<close>). On a pending future a
  timeout or a cancellation cancels the future.
\<close>

definition wait_for :: "ws_state \<Rightarrow> nat \<Rightarrow> wake \<Rightarrow> (ws_state \<times> (exn + json)) option" where
  "wait_for s h w =
     (case futures s h of
        Result r \<Rightarrow> Some (s, Inr r)
      | Failed e \<Rightarrow> Some (s, Inl e)
      | Cancelled \<Rightarrow> Some (s, Inl CancelledError)
      | Pending \<Rightarrow>
          (case w of
             Woken \<Rightarrow> None
           | TimedOut \<Rightarrow> Some (cancel s h, Inl TimeoutError)
           | TaskCancelled \<Rightarrow> Some (cancel s h, Inl CancelledError)))"

text \<open>The check for an error response, after the wait.\<close>

definition check_response :: "(json \<Rightarrow> string) \<Rightarrow> json \<Rightarrow> exn + json" where
  "check_response repr response =
     (case dict_get response ''response'' (JObj []) of
        Inl e \<Rightarrow> Inl e
      | Inr r \<Rightarrow>
          (case dict_get r ''type'' JNull of
             Inl e \<Rightarrow> Inl e
           | Inr t \<Rightarrow>
               if t = JStr ''error'' then
                 (case dict_get r ''payload'' (JStr ''Unknown error'') of
                    Inl e \<Rightarrow> Inl e
                  | Inr error_msg \<Rightarrow> Inl (APIError (''API Error: '' @ py_str repr error_msg)))
               else Inr response))"

text \<open>\<^verbatim>\<open>send_request\<close> from the end of the wait to its return or its exception.\<close>

definition send_request_finish ::
  "(json \<Rightarrow> string) \<Rightarrow> ws_state \<Rightarrow> call \<Rightarrow> wake \<Rightarrow> (ws_state \<times> (exn + json)) option" where
  "send_request_finish repr s c w =
     (case wait_for s (call_future c) w of
        None \<Rightarrow> None
      | Some (s1, Inl e) \<Rightarrow>
          (case send_request_except s1 (call_id c) e of (s2, e') \<Rightarrow> Some (s2, Inl e'))
      | Some (s1, Inr response) \<Rightarrow>
          (case check_response repr response of
             Inl e \<Rightarrow>
               (case send_request_except s1 (call_id c) e of (s2, e') \<Rightarrow> Some (s2, Inl e'))
           | Inr r \<Rightarrow> Some (s1, Inr r)))"

section \<open>The HyperLiquid facade\<close>

definition info_request :: "json \<Rightarrow> pydict" where
  "info_request payload =
     [(''method'', JStr ''post''),
      (''request'', JObj [(''type'', JStr ''info''), (''payload'', payload)])]"

definition send_ws_info_request_start :: "ws_state \<Rightarrow> json \<Rightarrow> ws_state \<times> pydict \<times> (exn + call)" where
  "send_ws_info_request_start s payload = send_request_start s (info_request payload)"

definition send_ws_info_request_finish ::
  "(json \<Rightarrow> string) \<Rightarrow> ws_state \<Rightarrow> call \<Rightarrow> wake \<Rightarrow> (ws_state \<times> (exn + json)) option" where
  "send_ws_info_request_finish repr s c w =
     (case send_request_finish repr s c w of
        None \<Rightarrow> None
      | Some (s1, Inl e) \<Rightarrow> Some (s1, Inl e)
      | Some (s1, Inr response) \<Rightarrow>
          Some (s1,
            (case dict_get response ''response'' (JObj []) of
               Inl e \<Rightarrow> Inl e
             | Inr r \<Rightarrow> dict_get r ''payload'' (JObj []))))"

text \<open>
  The frame that \<^verbatim>\<open>subscribe_to_channel\<close> and \<^verbatim>\<open>unsubscribe_from_channel\<close> build:
  \<^verbatim>\<open>if params:\<close> is false for \<^verbatim>\<open>None\<close> and for the empty dict.
\<close>

definition channel_frame :: "string \<Rightarrow> string \<Rightarrow> pydict option \<Rightarrow> json" where
  "channel_frame method channel params =
     JObj [(''method'', JStr method),
           (''subscription'',
              JObj (case params of
                      None \<Rightarrow> [(''type'', JStr channel)]
                    | Some p \<Rightarrow>
                        if p \<noteq> [] then dict_update [(''type'', JStr channel)] p
                        else [(''type'', JStr channel)]))]"

text \<open>\<^verbatim>\<open>websocket.send\<close> of the facade: a closed connection raises.\<close>

definition channel_send :: "ws_state \<Rightarrow> json \<Rightarrow> exn + ws_state" where
  "channel_send s frame =
     (case websocket s of
        None \<Rightarrow> Inl (APIError ''WebSocket not connected'')
      | Some c \<Rightarrow>
          if is_open c then Inr (s\<lparr>websocket := Some (c\<lparr>sent := sent c @ [frame]\<rparr>)\<rparr>)
          else Inl ConnectionClosed)"

definition subscribe_to_channel :: "ws_state \<Rightarrow> string \<Rightarrow> pydict option \<Rightarrow> exn + ws_state" where
  "subscribe_to_channel s channel params =
     channel_send s (channel_frame ''subscribe'' channel params)"

definition unsubscribe_from_channel :: "ws_state \<Rightarrow> string \<Rightarrow> pydict option \<Rightarrow> exn + ws_state" where
  "unsubscribe_from_channel s channel params =
     channel_send s (channel_frame ''unsubscribe'' channel params)"

section \<open>Runs of one client\<close>

text \<open>The remote end closes the connection.\<close>

definition peer_close :: "ws_state \<Rightarrow> ws_state" where
  "peer_close s =
     (case websocket s of
        None \<Rightarrow> s
      | Some c \<Rightarrow> s\<lparr>websocket := Some (c\<lparr>is_open := False\<rparr>)\<rparr>)"

text \<open>
  The tasks of the event loop run one at a time between their suspension points, so a
  run of the client is a sequence of such segments: a call of a public method up to its
  first suspension, the resumption of a suspended \<^verbatim>\<open>send_request\<close>, or the resumption of
  the receive loop with what \<^verbatim>\<open>recv()\<close> delivered.
\<close>

datatype event =
    EvConnect "string + unit"
  | EvDisconnect
  | EvPeerClose
  | EvSend pydict
  | EvFinish call wake
  | EvRecv recv_outcome
  | EvSubscribe string "pydict option"
  | EvUnsubscribe string "pydict option"

definition step :: "(json \<Rightarrow> string) \<Rightarrow> ws_state \<Rightarrow> event \<Rightarrow> ws_state" where
  "step repr s ev =
     (case ev of
        EvConnect outcome \<Rightarrow> (case connect s outcome of Inl _ \<Rightarrow> s | Inr s' \<Rightarrow> s')
      | EvDisconnect \<Rightarrow> disconnect_close s
      | EvPeerClose \<Rightarrow> peer_close s
      | EvSend request \<Rightarrow> fst (send_request_start s request)
      | EvFinish c w \<Rightarrow>
          (case send_request_finish repr s c w of None \<Rightarrow> s | Some (s', _) \<Rightarrow> s')
      | EvRecv r \<Rightarrow> handler_state (handler_resume s r)
      | EvSubscribe channel params \<Rightarrow>
          (case subscribe_to_channel s channel params of Inl _ \<Rightarrow> s | Inr s' \<Rightarrow> s')
      | EvUnsubscribe channel params \<Rightarrow>
          (case unsubscribe_from_channel s channel params of Inl _ \<Rightarrow> s | Inr s' \<Rightarrow> s'))"

fun run :: "(json \<Rightarrow> string) \<Rightarrow> ws_state \<Rightarrow> event list \<Rightarrow> ws_state" where
  "run repr s [] = s"
| "run repr s (ev # evs) = run repr (step repr s ev) evs"

text \<open>
  The request ids drawn along a run, in order: a \<^verbatim>\<open>send_request\<close> call that passes the
  connection check increments the counter and takes its new value.
\<close>

fun ids_drawn :: "(json \<Rightarrow> string) \<Rightarrow> ws_state \<Rightarrow> event list \<Rightarrow> int list" where
  "ids_drawn repr s [] = []"
| "ids_drawn repr s (ev # evs) =
     (case ev of
        EvSend request \<Rightarrow>
          (if websocket s \<noteq> None \<and> running s then [request_counter (step repr s ev)] else [])
      | _ \<Rightarrow> [])
     @ ids_drawn repr (step repr s ev) evs"

text \<open>
  The client is well formed: the counter is not negative, the keys of the table are
  distinct ids already drawn, and its futures are addresses already allocated.
\<close>

definition wf :: "ws_state \<Rightarrow> bool" where
  "wf s \<longleftrightarrow>
     0 \<le> request_counter s \<and>
     distinct (map fst (pending_requests s)) \<and>
     (\<forall>kh \<in> set (pending_requests s).
        1 \<le> fst kh \<and> fst kh \<le> request_counter s \<and> snd kh < next_future s)"

text \<open>
  A frame is a reply with body \<open>d\<close> and id \<open>rid\<close>: its channel is \<^verbatim>\<open>"post"\<close>, its
  \<^verbatim>\<open>data\<close> is \<open>d\<close>, and \<open>d\<close> has \<open>rid\<close> under \<^verbatim>\<open>"id"\<close>.
\<close>

definition is_reply :: "json \<Rightarrow> json \<Rightarrow> json \<Rightarrow> bool" where
  "is_reply frame d rid \<longleftrightarrow>
     dict_get frame ''channel'' JNull = Inr (JStr ''post'') \<and>
     dict_get frame ''data'' (JObj []) = Inr d \<and>
     dict_get d ''id'' JNull = Inr rid"

text \<open>
  A frame is malformed (\<^verbatim>\<open>json.loads\<close> rejects it, or it is not an object), or it is a
  \<^verbatim>\<open>"post"\<close> frame whose id selects no entry of the table.
\<close>

definition malformed_or_unmatched :: "ws_state \<Rightarrow> json option \<Rightarrow> bool" where
  "malformed_or_unmatched s m =
     (case m of
        None \<Rightarrow> True
      | Some frame \<Rightarrow>
          (case dict_get frame ''channel'' JNull of
             Inl _ \<Rightarrow> True
           | Inr channel \<Rightarrow>
               channel = JStr ''post'' \<and>
               (case dict_get frame ''data'' (JObj []) of
                  Inl _ \<Rightarrow> True
                | Inr d \<Rightarrow>
                    (case dict_get d ''id'' JNull of
                       Inl _ \<Rightarrow> True
                     | Inr rid \<Rightarrow>
                         (case key_of rid of
                            Inl _ \<Rightarrow> True
                          | Inr None \<Rightarrow> True
                          | Inr (Some k) \<Rightarrow> map_of (pending_requests s) k = None)))))"

text \<open>
  Several \<^verbatim>\<open>send_request\<close> calls run up to their suspension one after the other; the
  result keeps the calls that are suspended.
\<close>

fun issue :: "ws_state \<Rightarrow> pydict list \<Rightarrow> ws_state \<times> call list" where
  "issue s [] = (s, [])"
| "issue s (request # requests) =
     (case send_request_start s request of
        (s1, _, r) \<Rightarrow>
          (case issue s1 requests of
             (s2, cs) \<Rightarrow> (s2, (case r of Inl _ \<Rightarrow> cs | Inr c \<Rightarrow> c # cs))))"

text \<open>
  Suspended calls are live: each has its entry in the table, under an id and with a
  future that no other of them has, and its future is pending.
\<close>

definition live :: "ws_state \<Rightarrow> call list \<Rightarrow> bool" where
  "live s cs \<longleftrightarrow>
     distinct (map call_id cs) \<and> distinct (map call_future cs) \<and>
     (\<forall>cl \<in> set cs.
        map_of (pending_requests s) (call_id cl) = Some (call_future cl) \<and>
        futures s (call_future cl) = Pending)"

text \<open>The receive loop processes frames in their order of arrival.\<close>

fun deliver :: "ws_state \<Rightarrow> json list \<Rightarrow> ws_state" where
  "deliver s [] = s"
| "deliver s (frame # frames) =
     (case process_message s (Some frame) of
        Inl _ \<Rightarrow> s
      | Inr s' \<Rightarrow> deliver s' frames)"

text \<open>The reply frame of the wire format.\<close>

definition reply_frame :: "int \<Rightarrow> string \<Rightarrow> json \<Rightarrow> json" where
  "reply_frame k type payload =
     JObj [(''channel'', JStr ''post''),
           (''data'', JObj [(''id'', JInt k),
                            (''response'', JObj [(''type'', JStr type), (''payload'', payload)])])]"

definition reply_body :: "int \<Rightarrow> string \<Rightarrow> json \<Rightarrow> json" where
  "reply_body k type payload =
     JObj [(''id'', JInt k),
           (''response'', JObj [(''type'', JStr type), (''payload'', payload)])]"

subsection \<open>A client used in the examples\<close>

definition plain_repr :: "json \<Rightarrow> string" where
  "plain_repr v = ''...''"

definition client0 :: ws_state where
  "client0 = WebSocketClient_init ''wss://api.hypereth.io/v1/hl/ws'' ''testnet'' None"

definition client1 :: ws_state where
  "client1 = step plain_repr client0 (EvConnect (Inr ()))"

definition all_mids :: pydict where
  "all_mids = info_request (JObj [(''type'', JStr ''allMids'')])"

text \<open>One call, then two calls, suspended on the connected client.\<close>

definition client2 :: ws_state where
  "client2 = fst (send_request_start client1 all_mids)"

definition client3 :: ws_state where
  "client3 = fst (send_request_start client2 all_mids)"

definition call1 :: call where
  "call1 = \<lparr>call_id = 1, call_future = 0\<rparr>"

definition call2 :: call where
  "call2 = \<lparr>call_id = 2, call_future = 1\<rparr>"

section \<open>Exceptions never leave \<^verbatim>\<open>_process_message\<close>\<close>

lemma dict_get_Inl: "dict_get d k v = Inl e \<Longrightarrow> e = AttributeError"
  by (auto simp: dict_get_def split: json.splits)

lemma py_getitem_Inl: "py_getitem d k = Inl e \<Longrightarrow> e = KeyError \<or> e = TypeError"
  by (auto simp: py_getitem_def split: json.splits option.splits)

lemma py_iter_Inl: "py_iter v = Inl e \<Longrightarrow> e = TypeError"
  by (auto simp: py_iter_def split: json.splits)

lemma py_contains_Inl: "py_contains k v = Inl e \<Longrightarrow> e = TypeError"
  by (auto simp: py_contains_def split: json.splits)

lemma key_of_Inl: "key_of v = Inl e \<Longrightarrow> e = TypeError"
  by (cases v) (auto split: if_splits)

lemma order_updates_Inl: "order_updates xs = Inl e \<Longrightarrow> e = AttributeError"
  by (induction xs) (auto split: sum.splits dest: dict_get_Inl)

lemma handle_order_updates_Inl: "handle_order_updates d = Inl e \<Longrightarrow> is_Exception e"
  by (auto simp: handle_order_updates_def split: sum.splits
      dest!: dict_get_Inl py_iter_Inl order_updates_Inl)

lemma handle_subscription_response_Inl: "handle_subscription_response d = Inl e \<Longrightarrow> is_Exception e"
  by (auto simp: handle_subscription_response_def split: sum.splits dest!: dict_get_Inl)

lemma handle_feed_Inl: "handle_feed d = Inl e \<Longrightarrow> is_Exception e"
  by (auto simp: handle_feed_def split: sum.splits if_splits
      dest!: dict_get_Inl py_getitem_Inl py_contains_Inl)

lemma handle_post_Inl: "handle_post s d = Inl e \<Longrightarrow> is_Exception e"
  by (auto simp: handle_post_def split: sum.splits option.splits dest!: dict_get_Inl key_of_Inl)

lemma process_message_body_Inl: "process_message_body s m = Inl e \<Longrightarrow> is_Exception e"
  by (auto simp: process_message_body_def split: option.splits sum.splits if_splits
      dest!: dict_get_Inl py_contains_Inl handle_post_Inl handle_feed_Inl
        handle_subscription_response_Inl handle_order_updates_Inl)

lemma process_message_returns: "\<exists>s'. process_message s m = Inr s'"
  by (auto simp: process_message_def split: sum.splits dest: process_message_body_Inl)

lemma process_message_matched:
  assumes "is_reply frame d rid" "key_of rid = Inr (Some k)" "map_of (pending_requests s) k = Some h"
  shows "process_message s (Some frame) =
     Inr (s\<lparr>pending_requests := AList.delete k (pending_requests s),
            futures := (if fut_done (futures s h) then futures s
                        else (futures s)(h := Result d))\<rparr>)"
  using assms
  by (simp add: process_message_def process_message_body_def handle_post_def is_reply_def)

lemma handle_post_dropped:
  assumes "dict_get frame ''channel'' JNull = Inr (JStr ''post'')"
    and "malformed_or_unmatched s (Some frame)"
  shows "handle_post s frame = Inr s \<or> (\<exists>e. handle_post s frame = Inl e \<and> is_Exception e)"
proof (cases "dict_get frame ''data'' (JObj [])")
  case (Inl e)
  then show ?thesis by (auto simp: handle_post_def dest: dict_get_Inl)
next
  case d: (Inr d)
  show ?thesis
  proof (cases "dict_get d ''id'' JNull")
    case (Inl e)
    with d show ?thesis by (auto simp: handle_post_def dest: dict_get_Inl)
  next
    case rid: (Inr rid)
    show ?thesis
    proof (cases "key_of rid")
      case (Inl e)
      with d rid show ?thesis by (auto simp: handle_post_def dest: key_of_Inl)
    next
      case (Inr ko)
      with assms d rid show ?thesis
        by (cases ko) (simp_all add: handle_post_def malformed_or_unmatched_def)
    qed
  qed
qed

lemma process_message_dropped:
  assumes "malformed_or_unmatched s m"
  shows "process_message s m = Inr s"
proof (cases m)
  case None
  then show ?thesis by (simp add: process_message_def process_message_body_def)
next
  case (Some frame)
  show ?thesis
  proof (cases "dict_get frame ''channel'' JNull")
    case (Inl e)
    then have "e = AttributeError" by (rule dict_get_Inl)
    with Inl Some show ?thesis by (simp add: process_message_def process_message_body_def)
  next
    case (Inr channel)
    with assms Some have ch: "channel = JStr ''post''"
      by (simp add: malformed_or_unmatched_def)
    from handle_post_dropped [of frame s] assms Some Inr ch
    have "handle_post s frame = Inr s \<or> (\<exists>e. handle_post s frame = Inl e \<and> is_Exception e)"
      by simp
    with Some Inr ch show ?thesis
      by (auto simp: process_message_def process_message_body_def)
  qed
qed

lemma process_message_fields:
  assumes "process_message s m = Inr s'"
  shows "running s' = running s \<and> websocket s' = websocket s \<and>
         request_counter s' = request_counter s \<and> next_future s' = next_future s"
  using assms
  by (auto simp: process_message_def process_message_body_def handle_post_def
      split: option.splits sum.splits if_splits)

lemma update_fresh: "k \<notin> fst ` set al \<Longrightarrow> AList.update k v al = al @ [(k, v)]"
  by (induction al) auto

lemma send_request_start_open:
  assumes "websocket s = Some c" "running s" "is_open c"
  shows "send_request_start s request =
    (s\<lparr>request_counter := request_counter s + 1,
       pending_requests := AList.update (request_counter s + 1) (next_future s) (pending_requests s),
       futures := (futures s)(next_future s := Pending),
       next_future := Suc (next_future s),
       websocket := Some (c\<lparr>sent := sent c @
          [JObj (if ''id'' \<in> fst ` set request then request
                 else AList.update ''id'' (JInt (request_counter s + 1)) request)]\<rparr>)\<rparr>,
     (if ''id'' \<in> fst ` set request then request
      else AList.update ''id'' (JInt (request_counter s + 1)) request),
     Inr \<lparr>call_id = request_counter s + 1, call_future = next_future s\<rparr>)"
  using assms by (simp add: send_request_start_def Let_def)

lemma send_request_start_closed:
  assumes "websocket s = Some c" "running s" "\<not> is_open c"
  shows "send_request_start s request =
    (s\<lparr>request_counter := request_counter s + 1,
       pending_requests := AList.delete (request_counter s + 1)
          (AList.update (request_counter s + 1) (next_future s) (pending_requests s)),
       futures := (futures s)(next_future s := Pending),
       next_future := Suc (next_future s)\<rparr>,
     (if ''id'' \<in> fst ` set request then request
      else AList.update ''id'' (JInt (request_counter s + 1)) request),
     Inl ConnectionClosed)"
  using assms by (simp add: send_request_start_def Let_def send_request_except_def)

lemma map_of_snoc_fresh:
  "k \<notin> fst ` set al \<Longrightarrow> map_of (al @ [(k, v)]) k' = (if k' = k then Some v else map_of al k')"
  by (induction al) auto



subsection \<open>Facts about the example client\<close>

lemma client1_fields:
  "websocket client1 = Some \<lparr>is_open = True, sent = []\<rparr>" "running client1"
  "request_counter client1 = 0" "pending_requests client1 = []" "next_future client1 = 0"
  by (simp_all add: client1_def client0_def step_def connect_def WebSocketClient_init_def)

lemma all_mids_no_id: "''id'' \<notin> fst ` set all_mids"
  by (simp add: all_mids_def info_request_def)

lemma client2_fields:
  "websocket client2 = Some \<lparr>is_open = True, sent = [JObj (all_mids @ [(''id'', JInt 1)])]\<rparr>"
  "running client2" "request_counter client2 = 1" "pending_requests client2 = [(1, 0)]"
  "next_future client2 = 1" "futures client2 0 = Pending"
  "snd (snd (send_request_start client1 all_mids)) = Inr call1"
  unfolding client2_def
  by (simp_all add: send_request_start_open [where c = "\<lparr>is_open = True, sent = []\<rparr>"]
      client1_fields all_mids_no_id update_fresh call1_def)

lemma client3_fields:
  "running client3" "request_counter client3 = 2" "pending_requests client3 = [(1, 0), (2, 1)]"
  "next_future client3 = 2" "futures client3 0 = Pending" "futures client3 1 = Pending"
  "websocket client3 \<noteq> None"
  "snd (snd (send_request_start client2 all_mids)) = Inr call2"
  unfolding client3_def
  by (simp_all add: send_request_start_open
        [where c = "\<lparr>is_open = True, sent = [JObj (all_mids @ [(''id'', JInt 1)])]\<rparr>"]
      client2_fields all_mids_no_id update_fresh call2_def)

lemma wait_for_Result: "futures s h = Result d \<Longrightarrow> wait_for s h Woken = Some (s, Inr d)"
  by (simp add: wait_for_def)

lemma check_response_obj:
  assumes "dict_get d ''response'' (JObj []) = Inr (JObj resp)"
  shows "check_response repr d =
     (if map_of resp ''type'' = Some (JStr ''error'')
      then Inl (APIError (''API Error: '' @
             py_str repr (case map_of resp ''payload'' of None \<Rightarrow> JStr ''Unknown error'' | Some p \<Rightarrow> p)))
      else Inr d)"
  using assms
  by (auto simp: check_response_def dict_get_def split: option.splits)

lemma wf_handle_fresh:
  assumes "wf s" "map_of (pending_requests s) k = Some h"
  shows "h < next_future s"
  using assms map_of_SomeD [OF assms(2)] by (fastforce simp: wf_def)

lemma wf_client1: "wf client1"
  by (simp add: wf_def client1_fields)

lemma process_message_ack:
  assumes "dict_get ack ''channel'' JNull = Inr (JStr ''subscriptionResponse'')"
  shows "process_message s (Some ack) = Inr s"
  using assms handle_subscription_response_Inl [of ack]
  by (auto simp: process_message_def process_message_body_def split: sum.splits)

lemma channel_send_open:
  assumes "websocket s = Some c" "is_open c"
  shows "channel_send s frame = Inr (s\<lparr>websocket := Some (c\<lparr>sent := sent c @ [frame]\<rparr>)\<rparr>)"
  using assms by (simp add: channel_send_def)

lemma fail_pending_eq:
  "fail_pending xs f h =
     (if h \<in> snd ` set xs \<and> \<not> fut_done (f h) then Failed (PyException ''Connection closed'')
      else f h)"
  by (induction xs f rule: fail_pending.induct) auto

lemma handler_finally_fields:
  "pending_requests (handler_finally s) = []"
  "futures (handler_finally s) h =
     (if h \<in> snd ` set (pending_requests s) \<and> \<not> fut_done (futures s h)
      then Failed (PyException ''Connection closed'') else futures s h)"
  by (simp_all add: handler_finally_def fail_pending_eq)

lemma disconnect_close_fields:
  "running (disconnect_close s) = False"
  "pending_requests (disconnect_close s) = pending_requests s"
  "futures (disconnect_close s) = futures s"
  "request_counter (disconnect_close s) = request_counter s"
  "next_future (disconnect_close s) = next_future s"
  by (simp_all add: disconnect_close_def Let_def split: option.splits)

lemma handler_resume_not_running:
  assumes "\<not> running s"
  shows "\<exists>s'. handler_resume s ev = Finished s' \<and> pending_requests s' = []"
proof (cases ev)
  case (Raised e)
  with assms show ?thesis
    by (simp add: handler_resume_def handler_except_def handler_loop_def handler_finally_fields)
next
  case (Message m)
  from process_message_returns obtain s1 where s1: "process_message s m = Inr s1" by blast
  from process_message_fields [OF s1] assms have "\<not> running s1" by simp
  with Message s1 show ?thesis
    by (simp add: handler_resume_def handler_loop_def handler_finally_fields)
qed


subsection \<open>Well-formed clients and the counter\<close>

lemma set_update_subset: "set (AList.update k v al) \<subseteq> insert (k, v) (set al)"
  by (induction al) auto

lemma set_delete_subset: "set (AList.delete k al) \<subseteq> set al"
  by (induction al) auto

lemma wf_cong:
  assumes "pending_requests s' = pending_requests s" "request_counter s' = request_counter s"
    "next_future s' = next_future s"
  shows "wf s' = wf s"
  using assms by (simp add: wf_def)

lemma wf_delete:
  assumes "wf s"
    and "pending_requests s' = AList.delete k (pending_requests s)"
    and "request_counter s' = request_counter s" "next_future s' = next_future s"
  shows "wf s'"
  using assms set_delete_subset [of k "pending_requests s"]
  by (auto simp: wf_def distinct_delete)

lemma wf_clear:
  assumes "pending_requests s' = []" "0 \<le> request_counter s'"
  shows "wf s'"
  using assms by (simp add: wf_def)

lemma wf_register:
  assumes "wf s"
    and "pending_requests s' = AList.update (request_counter s + 1) (next_future s) (pending_requests s)"
    and "request_counter s' = request_counter s + 1" "next_future s' = Suc (next_future s)"
  shows "wf s'"
proof -
  from assms(1) have c: "0 \<le> request_counter s" by (simp add: wf_def)
  have d: "0 \<le> request_counter s' \<and> distinct (map fst (pending_requests s'))"
    using assms by (simp add: wf_def distinct_update)
  have b: "1 \<le> fst kh \<and> fst kh \<le> request_counter s' \<and> snd kh < next_future s'"
    if "kh \<in> set (pending_requests s')" for kh
  proof -
    from that assms(2) set_update_subset
    have "kh = (request_counter s + 1, next_future s) \<or> kh \<in> set (pending_requests s)"
      by fastforce
    then show ?thesis
    proof
      assume kh: "kh = (request_counter s + 1, next_future s)"
      with c assms(3,4) show ?thesis by simp
    next
      assume "kh \<in> set (pending_requests s)"
      with assms show ?thesis by (fastforce simp: wf_def)
    qed
  qed
  from d b show ?thesis by (simp add: wf_def)
qed

lemma wf_send_request_start:
  assumes "wf s"
  shows "wf (fst (send_request_start s request))"
proof (cases "websocket s")
  case None
  with assms show ?thesis by (simp add: send_request_start_def)
next
  case (Some c)
  show ?thesis
  proof (cases "running s")
    case False
    with Some assms show ?thesis by (simp add: send_request_start_def)
  next
    case True
    show ?thesis
    proof (cases "is_open c")
      case o: True
      show ?thesis
        by (rule wf_register [OF assms])
          (simp_all add: send_request_start_open [OF Some True o])
    next
      case o: False
      let ?s1 = "s\<lparr>request_counter := request_counter s + 1,
         pending_requests := AList.update (request_counter s + 1) (next_future s) (pending_requests s),
         next_future := Suc (next_future s)\<rparr>"
      have "wf ?s1" by (rule wf_register [OF assms]) simp_all
      then show ?thesis
        by (rule wf_delete) (simp_all add: send_request_start_closed [OF Some True o])
    qed
  qed
qed

lemma counter_send_request_start:
  "request_counter (fst (send_request_start s request)) =
     (if websocket s \<noteq> None \<and> running s then request_counter s + 1 else request_counter s)"
  by (cases "websocket s")
    (auto simp: send_request_start_def Let_def send_request_except_def split: if_splits)

lemma cancel_fields:
  "pending_requests (cancel s h) = pending_requests s"
  "request_counter (cancel s h) = request_counter s"
  "next_future (cancel s h) = next_future s"
  by (simp_all add: cancel_def)

lemma wait_for_fields:
  assumes "wait_for s h w = Some (s1, r)"
  shows "pending_requests s1 = pending_requests s \<and> request_counter s1 = request_counter s \<and>
         next_future s1 = next_future s"
  using assms
  by (auto simp: wait_for_def cancel_fields split: wake.splits fut.splits if_splits)

lemma send_request_except_fields:
  assumes "send_request_except s k e = (s', e')"
  shows "(pending_requests s' = pending_requests s \<or>
          pending_requests s' = AList.delete k (pending_requests s)) \<and>
         request_counter s' = request_counter s \<and> next_future s' = next_future s"
  using assms by (auto simp: send_request_except_def split: if_splits)

lemma send_request_finish_fields:
  assumes "send_request_finish repr s c w = Some (s', r)"
  shows "(pending_requests s' = pending_requests s \<or>
          pending_requests s' = AList.delete (call_id c) (pending_requests s)) \<and>
         request_counter s' = request_counter s \<and> next_future s' = next_future s"
proof -
  from assms obtain s1 r1 where w: "wait_for s (call_future c) w = Some (s1, r1)"
    by (auto simp: send_request_finish_def split: option.splits)
  note f = wait_for_fields [OF w]
  show ?thesis
  proof (cases "\<exists>e. send_request_except s1 (call_id c) e = (s', case r of Inl e' \<Rightarrow> e' | Inr _ \<Rightarrow> e)")
    case True
    then obtain e e' where "send_request_except s1 (call_id c) e = (s', e')" by blast
    from send_request_except_fields [OF this] f show ?thesis by auto
  next
    case False
    with assms w have "s' = s1"
      by (auto simp: send_request_finish_def split: sum.splits prod.splits)
    with f show ?thesis by simp
  qed
qed

lemma wf_send_request_finish:
  assumes "wf s" "send_request_finish repr s c w = Some (s', r)"
  shows "wf s'"
  using send_request_finish_fields [OF assms(2)] assms(1)
  by (metis wf_cong wf_delete)

lemma process_message_pending:
  assumes "process_message s m = Inr s'"
  shows "pending_requests s' = pending_requests s \<or>
         (\<exists>k. pending_requests s' = AList.delete k (pending_requests s))"
  using assms
  by (auto simp: process_message_def process_message_body_def handle_post_def
      split: option.splits sum.splits if_splits)

lemma wf_process_message:
  assumes "wf s" "process_message s m = Inr s'"
  shows "wf s'"
  using process_message_pending [OF assms(2)] process_message_fields [OF assms(2)] assms(1)
  by (metis wf_cong wf_delete)

lemma handler_finally_other_fields:
  "request_counter (handler_finally s) = request_counter s"
  "next_future (handler_finally s) = next_future s"
  "running (handler_finally s) = running s"
  "websocket (handler_finally s) = websocket s"
  by (simp_all add: handler_finally_def)

lemma wf_handler_finally: "wf s \<Longrightarrow> wf (handler_finally s)"
  by (simp add: wf_def handler_finally_def)

lemma wf_handler_loop: "wf s \<Longrightarrow> wf (handler_state (handler_loop s))"
  by (simp add: handler_loop_def wf_handler_finally)

lemma wf_handler_except: "wf s \<Longrightarrow> wf (handler_state (handler_except s e))"
  by (simp add: handler_except_def wf_handler_finally wf_handler_loop)

lemma wf_handler_resume:
  assumes "wf s"
  shows "wf (handler_state (handler_resume s r))"
proof (cases r)
  case (Raised e)
  with assms show ?thesis by (simp add: handler_resume_def wf_handler_except)
next
  case (Message m)
  from process_message_returns obtain s1 where s1: "process_message s m = Inr s1" by blast
  from wf_process_message [OF assms s1] Message s1 show ?thesis
    by (simp add: handler_resume_def wf_handler_loop)
qed

lemma counter_handler_resume:
  "request_counter (handler_state (handler_resume s r)) = request_counter s"
proof (cases r)
  case (Raised e)
  then show ?thesis
    by (simp add: handler_resume_def handler_except_def handler_loop_def
        handler_finally_other_fields)
next
  case (Message m)
  from process_message_returns obtain s1 where s1: "process_message s m = Inr s1" by blast
  from process_message_fields [OF s1] Message s1 show ?thesis
    by (simp add: handler_resume_def handler_loop_def handler_finally_other_fields)
qed

lemma channel_send_fields:
  assumes "channel_send s frame = Inr s'"
  shows "pending_requests s' = pending_requests s \<and> request_counter s' = request_counter s \<and>
         next_future s' = next_future s"
  using assms by (auto simp: channel_send_def split: option.splits if_splits)

lemma subscribe_step_fields:
  "pending_requests (case channel_send s frame of Inl _ \<Rightarrow> s | Inr s' \<Rightarrow> s') = pending_requests s"
  "request_counter (case channel_send s frame of Inl _ \<Rightarrow> s | Inr s' \<Rightarrow> s') = request_counter s"
  "next_future (case channel_send s frame of Inl _ \<Rightarrow> s | Inr s' \<Rightarrow> s') = next_future s"
  by (cases "websocket s"; simp add: channel_send_def)+

lemma wf_step:
  assumes "wf s"
  shows "wf (step repr s ev)"
proof (cases ev)
  case (EvConnect outcome)
  with assms show ?thesis
    by (cases outcome) (simp_all add: step_def connect_def wf_def)
next
  case EvDisconnect
  with assms show ?thesis
    by (simp add: step_def wf_cong [of "disconnect_close s" s] disconnect_close_fields)
next
  case EvPeerClose
  with assms show ?thesis
    by (cases "websocket s") (simp_all add: step_def peer_close_def wf_def)
next
  case (EvSend request)
  with assms show ?thesis by (simp add: step_def wf_send_request_start)
next
  case (EvFinish c w)
  with assms show ?thesis
    by (auto simp: step_def split: option.splits dest: wf_send_request_finish)
next
  case (EvRecv r)
  with assms show ?thesis by (simp add: step_def wf_handler_resume)
next
  case (EvSubscribe channel params)
  with assms show ?thesis
    using wf_cong [OF subscribe_step_fields [of s "channel_frame ''subscribe'' channel params"]]
    by (simp add: step_def subscribe_to_channel_def)
next
  case (EvUnsubscribe channel params)
  with assms show ?thesis
    using wf_cong [OF subscribe_step_fields [of s "channel_frame ''unsubscribe'' channel params"]]
    by (simp add: step_def unsubscribe_from_channel_def)
qed

lemma counter_step:
  "request_counter (step repr s ev) =
     (case ev of
        EvSend request \<Rightarrow>
          (if websocket s \<noteq> None \<and> running s then request_counter s + 1 else request_counter s)
      | _ \<Rightarrow> request_counter s)"
proof (cases ev)
  case (EvConnect outcome)
  then show ?thesis by (cases outcome) (simp_all add: step_def connect_def)
next
  case EvDisconnect
  then show ?thesis by (simp add: step_def disconnect_close_fields)
next
  case EvPeerClose
  then show ?thesis by (cases "websocket s") (simp_all add: step_def peer_close_def)
next
  case (EvSend request)
  then show ?thesis by (simp add: step_def counter_send_request_start)
next
  case (EvFinish c w)
  then show ?thesis
    by (auto simp: step_def split: option.splits dest: send_request_finish_fields)
next
  case (EvRecv r)
  then show ?thesis by (simp add: step_def counter_handler_resume)
next
  case (EvSubscribe channel params)
  then show ?thesis
    using subscribe_step_fields(2) [of s "channel_frame ''subscribe'' channel params"]
    by (simp add: step_def subscribe_to_channel_def)
next
  case (EvUnsubscribe channel params)
  then show ?thesis
    using subscribe_step_fields(2) [of s "channel_frame ''unsubscribe'' channel params"]
    by (simp add: step_def unsubscribe_from_channel_def)
qed

lemma wf_run: "wf s \<Longrightarrow> wf (run repr s evs)"
  by (induction evs arbitrary: s) (simp_all add: wf_step)

lemma wf_init: "wf (WebSocketClient_init url env key)"
  by (simp add: wf_def WebSocketClient_init_def)

lemma upt_from_one: "[1 ..< Suc (Suc n)] = 1 # map Suc [1 ..< Suc n]"
proof -
  have "[1 ..< Suc (Suc n)] = 1 # [Suc 1 ..< Suc (Suc n)]"
    by (rule upt_conv_Cons) simp
  also have "[Suc 1 ..< Suc (Suc n)] = map Suc [1 ..< Suc n]"
    by (rule map_Suc_upt [symmetric])
  finally show ?thesis .
qed

lemma ids_drawn_from:
  "\<exists>n. ids_drawn repr s evs = map (\<lambda>i. request_counter s + int i) [1 ..< Suc n] \<and>
       request_counter (run repr s evs) = request_counter s + int n"
proof (induction evs arbitrary: s)
  case Nil
  show ?case by simp
next
  case (Cons ev evs)
  let ?s1 = "step repr s ev"
  from Cons.IH [of ?s1] obtain n where
    ih1: "ids_drawn repr ?s1 evs = map (\<lambda>i. request_counter ?s1 + int i) [1 ..< Suc n]"
    and ih2: "request_counter (run repr ?s1 evs) = request_counter ?s1 + int n"
    by blast
  show ?case
  proof (cases "\<exists>request. ev = EvSend request \<and> websocket s \<noteq> None \<and> running s")
    case True
    then obtain request where ev: "ev = EvSend request" and g: "websocket s \<noteq> None" "running s"
      by blast
    from ev g have c1: "request_counter ?s1 = request_counter s + 1"
      by (simp add: counter_step)
    from ev g have d: "ids_drawn repr s (ev # evs) = request_counter ?s1 # ids_drawn repr ?s1 evs"
      by simp
    have m: "map (\<lambda>i. request_counter s + int i) [1 ..< Suc (Suc n)] =
        (request_counter s + 1) # map (\<lambda>i. request_counter s + 1 + int i) [1 ..< Suc n]"
      by (simp only: upt_from_one list.map map_map o_def) (simp add: add.assoc)
    have "ids_drawn repr s (ev # evs) =
        map (\<lambda>i. request_counter s + int i) [1 ..< Suc (Suc n)]"
      unfolding d ih1 m c1 ..
    moreover have "request_counter (run repr s (ev # evs)) = request_counter s + int (Suc n)"
      using ih2 c1 by simp
    ultimately show ?thesis by blast
  next
    case False
    then have c1: "request_counter ?s1 = request_counter s"
      by (cases ev) (auto simp: counter_step)
    from False have d: "ids_drawn repr s (ev # evs) = ids_drawn repr ?s1 evs"
      by (cases ev) auto
    have "ids_drawn repr s (ev # evs) = map (\<lambda>i. request_counter s + int i) [1 ..< Suc n]"
      unfolding d ih1 c1 ..
    moreover have "request_counter (run repr s (ev # evs)) = request_counter s + int n"
      using ih2 c1 by simp
    ultimately show ?thesis by blast
  qed
qed

lemma ids_drawn_init:
  "ids_drawn repr (WebSocketClient_init url env key) evs =
     map int [1 ..< Suc (length (ids_drawn repr (WebSocketClient_init url env key) evs))] \<and>
   request_counter (run repr (WebSocketClient_init url env key) evs) =
     int (length (ids_drawn repr (WebSocketClient_init url env key) evs))"
proof -
  let ?s = "WebSocketClient_init url env key"
  have c0: "request_counter ?s = 0" by (simp add: WebSocketClient_init_def)
  from ids_drawn_from [of repr ?s evs] obtain n where
    1: "ids_drawn repr ?s evs = map (\<lambda>i. request_counter ?s + int i) [1 ..< Suc n]"
    and 2: "request_counter (run repr ?s evs) = request_counter ?s + int n"
    by blast
  from 1 have "length (ids_drawn repr ?s evs) = length [1 ..< Suc n]"
    by (simp only: length_map)
  then have n: "length (ids_drawn repr ?s evs) = n" by simp
  from 1 2 show ?thesis unfolding n c0 by simp
qed

lemma send_request_start_Inr:
  assumes "send_request_start s request = (s', request', Inr cl)"
  shows "\<exists>c. websocket s = Some c \<and> is_open c \<and> running s"
  using assms
  by (auto simp: send_request_start_def Let_def send_request_except_def
      split: option.splits if_splits)

lemma wf_next_id_free:
  assumes "wf s"
  shows "map_of (pending_requests s) (request_counter s + 1) = None"
proof (rule ccontr)
  assume "map_of (pending_requests s) (request_counter s + 1) \<noteq> None"
  then obtain h where "map_of (pending_requests s) (request_counter s + 1) = Some h" by blast
  from map_of_SomeD [OF this] assms show False by (fastforce simp: wf_def)
qed

lemma step_examples:
  "step plain_repr client0 (EvConnect (Inr ())) = client1"
  "step plain_repr client1 (EvSend all_mids) = client2"
  "step plain_repr client2 (EvSend all_mids) = client3"
  by (simp_all add: client1_def client2_def client3_def step_def)

subsection \<open>Calls issued together and replies delivered in any order\<close>

lemma issue_live:
  assumes "websocket s = Some c" "is_open c" "running s"
  shows "\<exists>s1 cs. issue s requests = (s1, cs) \<and>
           length cs = length requests \<and>
           map call_id cs = map (\<lambda>i. request_counter s + int i) [1 ..< Suc (length requests)] \<and>
           distinct (map call_id cs) \<and> distinct (map call_future cs) \<and>
           (\<forall>cl \<in> set cs.
              request_counter s < call_id cl \<and> next_future s \<le> call_future cl \<and>
              map_of (pending_requests s1) (call_id cl) = Some (call_future cl) \<and>
              futures s1 (call_future cl) = Pending) \<and>
           (\<forall>k \<le> request_counter s. map_of (pending_requests s1) k = map_of (pending_requests s) k) \<and>
           (\<forall>h < next_future s. futures s1 h = futures s h)"
  using assms
proof (induction requests arbitrary: s c)
  case Nil
  show ?case by simp
next
  case (Cons request requests)
  let ?k = "request_counter s + 1" and ?h = "next_future s"
  let ?cl = "\<lparr>call_id = ?k, call_future = ?h\<rparr>"
  from send_request_start_open [OF Cons.prems(1,3,2), of request]
  obtain s' request' c' where
    st: "send_request_start s request = (s', request', Inr ?cl)"
    and ws: "websocket s' = Some c'" "is_open c'" "running s'"
    and f: "request_counter s' = ?k" "next_future s' = Suc ?h"
      "pending_requests s' = AList.update ?k ?h (pending_requests s)"
      "futures s' = (futures s)(?h := Pending)"
    using Cons.prems(2,3) by simp
  from Cons.IH [OF ws] obtain s1 cs where
    iss: "issue s' requests = (s1, cs)"
    and len: "length cs = length requests"
    and ids: "map call_id cs = map (\<lambda>i. request_counter s' + int i) [1 ..< Suc (length requests)]"
    and dist: "distinct (map call_id cs)" "distinct (map call_future cs)"
    and each: "\<forall>cl \<in> set cs.
              request_counter s' < call_id cl \<and> next_future s' \<le> call_future cl \<and>
              map_of (pending_requests s1) (call_id cl) = Some (call_future cl) \<and>
              futures s1 (call_future cl) = Pending"
    and keep: "\<forall>k \<le> request_counter s'. map_of (pending_requests s1) k = map_of (pending_requests s') k"
      "\<forall>h < next_future s'. futures s1 h = futures s' h"
    by blast
  have 1: "issue s (request # requests) = (s1, ?cl # cs)"
    using st iss by simp
  have 2: "length (?cl # cs) = length (request # requests)"
    using len by simp
  have 3: "map call_id (?cl # cs) =
      map (\<lambda>i. request_counter s + int i) [1 ..< Suc (length (request # requests))]"
  proof -
    have "map (\<lambda>i. request_counter s + int i) [1 ..< Suc (Suc (length requests))] =
        ?k # map (\<lambda>i. ?k + int i) [1 ..< Suc (length requests)]"
      by (simp only: upt_from_one list.map map_map o_def) (simp add: add.assoc)
    with ids f(1) show ?thesis by simp
  qed
  have 4: "distinct (map call_id (?cl # cs))" "distinct (map call_future (?cl # cs))"
    using dist each f(1,2) by fastforce+
  have here: "map_of (pending_requests s1) ?k = Some ?h" "futures s1 ?h = Pending"
    using keep f by (simp_all add: update_conv)
  have 5: "\<forall>cl \<in> set (?cl # cs).
      request_counter s < call_id cl \<and> next_future s \<le> call_future cl \<and>
      map_of (pending_requests s1) (call_id cl) = Some (call_future cl) \<and>
      futures s1 (call_future cl) = Pending"
    using each here f(1,2) by fastforce
  have 6: "\<forall>k \<le> request_counter s. map_of (pending_requests s1) k = map_of (pending_requests s) k"
    using keep(1) f(1,3) by (simp add: update_conv)
  have 7: "\<forall>h < next_future s. futures s1 h = futures s h"
    using keep(2) f(2,4) by simp
  from 1 2 3 4 5 6 7 show ?case by blast
qed

lemma deliver_live:
  assumes "list_all2 (\<lambda>frame kd. is_reply frame (snd kd) (JInt (fst kd))) frames kds"
    and "live s cs" and "distinct (map fst kds)" and "fst ` set kds \<subseteq> call_id ` set cs"
  shows "(\<forall>h. h \<notin> call_future ` {cl \<in> set cs. call_id cl \<in> fst ` set kds} \<longrightarrow>
            futures (deliver s frames) h = futures s h) \<and>
         (\<forall>kd \<in> set kds. \<forall>cl \<in> set cs. call_id cl = fst kd \<longrightarrow>
            futures (deliver s frames) (call_future cl) = Result (snd kd)) \<and>
         (\<forall>k. map_of (pending_requests (deliver s frames)) k =
            (if k \<in> fst ` set kds then None else map_of (pending_requests s) k))"
  using assms
proof (induction frames kds arbitrary: s cs rule: list_all2_induct)
  case Nil
  show ?case by simp
next
  case (Cons frame frames kd kds)
  obtain k d where kd: "kd = (k, d)" by (cases kd)
  from Cons.prems(1) have idinj: "inj_on call_id (set cs)" and hinj: "inj_on call_future (set cs)"
    by (simp_all add: live_def distinct_map)
  from Cons.prems(3) kd obtain cl0 where cl0: "cl0 \<in> set cs" "call_id cl0 = k" by auto
  let ?h0 = "call_future cl0"
  from Cons.prems(1) cl0 have entry: "map_of (pending_requests s) k = Some ?h0"
    and pend: "futures s ?h0 = Pending"
    by (auto simp: live_def)
  let ?s' = "s\<lparr>pending_requests := AList.delete k (pending_requests s),
               futures := (futures s)(?h0 := Result d)\<rparr>"
  from Cons.hyps(1) kd have rep: "is_reply frame d (JInt k)" by simp
  have pm: "process_message s (Some frame) = Inr ?s'"
    using process_message_matched [OF rep _ entry] pend by simp
  then have del: "deliver s (frame # frames) = deliver ?s' frames" by simp
  let ?cs' = "filter (\<lambda>cl. call_id cl \<noteq> k) cs"
  have other: "call_future cl \<noteq> ?h0" if "cl \<in> set cs" "call_id cl \<noteq> k" for cl
    using that cl0 hinj by (auto dest: inj_onD)
  have live': "live ?s' ?cs'"
    using Cons.prems(1) other
    by (auto simp: live_def distinct_map_filter)
  have dist': "distinct (map fst kds)" and knot: "k \<notin> fst ` set kds"
    using Cons.prems(2) kd by auto
  have sub': "fst ` set kds \<subseteq> call_id ` set ?cs'"
  proof
    fix a assume a: "a \<in> fst ` set kds"
    with Cons.prems(3) obtain cl where "cl \<in> set cs" "call_id cl = a" by auto
    moreover from a knot have "a \<noteq> k" by auto
    ultimately show "a \<in> call_id ` set ?cs'" by auto
  qed
  from Cons.IH [OF live' dist' sub'] have
    ih1: "\<forall>h. h \<notin> call_future ` {cl \<in> set ?cs'. call_id cl \<in> fst ` set kds} \<longrightarrow>
            futures (deliver ?s' frames) h = futures ?s' h"
    and ih2: "\<forall>kd \<in> set kds. \<forall>cl \<in> set ?cs'. call_id cl = fst kd \<longrightarrow>
            futures (deliver ?s' frames) (call_future cl) = Result (snd kd)"
    and ih3: "\<forall>k'. map_of (pending_requests (deliver ?s' frames)) k' =
            (if k' \<in> fst ` set kds then None else map_of (pending_requests ?s') k')"
    by blast+
  have h0_out: "?h0 \<notin> call_future ` {cl \<in> set ?cs'. call_id cl \<in> fst ` set kds}"
  proof
    assume "?h0 \<in> call_future ` {cl \<in> set ?cs'. call_id cl \<in> fst ` set kds}"
    then obtain cl where "cl \<in> set cs" "call_id cl \<noteq> k" "call_future cl = ?h0" by auto
    with other [of cl] show False by simp
  qed
  have g1: "\<forall>h. h \<notin> call_future ` {cl \<in> set cs. call_id cl \<in> fst ` set (kd # kds)} \<longrightarrow>
            futures (deliver s (frame # frames)) h = futures s h"
  proof (intro allI impI)
    fix h
    assume h: "h \<notin> call_future ` {cl \<in> set cs. call_id cl \<in> fst ` set (kd # kds)}"
    with cl0 kd have ne: "h \<noteq> ?h0" by auto
    from h have "h \<notin> call_future ` {cl \<in> set ?cs'. call_id cl \<in> fst ` set kds}" by auto
    with ih1 have "futures (deliver ?s' frames) h = futures ?s' h" by blast
    with ne del show "futures (deliver s (frame # frames)) h = futures s h" by simp
  qed
  have g2: "\<forall>kd' \<in> set (kd # kds). \<forall>cl \<in> set cs. call_id cl = fst kd' \<longrightarrow>
            futures (deliver s (frame # frames)) (call_future cl) = Result (snd kd')"
  proof (intro ballI impI)
    fix kd' cl
    assume kd': "kd' \<in> set (kd # kds)" and cl: "cl \<in> set cs" "call_id cl = fst kd'"
    show "futures (deliver s (frame # frames)) (call_future cl) = Result (snd kd')"
    proof (cases "kd' = kd")
      case True
      with cl kd cl0 idinj have "cl = cl0" by (auto dest: inj_onD)
      moreover from ih1 h0_out have "futures (deliver ?s' frames) ?h0 = futures ?s' ?h0" by blast
      ultimately show ?thesis using del True kd by simp
    next
      case False
      with kd' have in_kds: "kd' \<in> set kds" by simp
      with knot cl have "call_id cl \<noteq> k" by force
      with cl have "cl \<in> set ?cs'" by simp
      with ih2 in_kds cl(2) del show ?thesis by simp
    qed
  qed
  have g3: "\<forall>k'. map_of (pending_requests (deliver s (frame # frames))) k' =
            (if k' \<in> fst ` set (kd # kds) then None else map_of (pending_requests s) k')"
    using ih3 del kd by (simp add: delete_conv)
  from g1 g2 g3 show ?case by blast
qed

lemma issue_example: "issue client1 [all_mids, all_mids] = (client3, [call1, call2])"
proof -
  obtain r1 where 1: "send_request_start client1 all_mids = (client2, r1, Inr call1)"
    using client2_fields(7) by (cases "send_request_start client1 all_mids") (simp add: client2_def)
  obtain r2 where 2: "send_request_start client2 all_mids = (client3, r2, Inr call2)"
    using client3_fields(8) by (cases "send_request_start client2 all_mids") (simp add: client3_def)
  show ?thesis by (simp add: 1 2)
qed

subsection \<open>Exits of \<^verbatim>\<open>send_request\<close> by an exception\<close>

text \<open>
  Every exit of the wait by an exception other than \<^verbatim>\<open>CancelledError\<close> passes one of the
  \<^verbatim>\<open>except\<close> clauses, which pop the entry.
\<close>

lemma send_request_except_removes:
  assumes "send_request_except s k e = (s', e')" "is_Exception e"
  shows "map_of (pending_requests s') k = None \<and> is_Exception e'"
  using assms by (auto simp: send_request_except_def delete_conv split: if_splits)

lemma exception_exit_removes_entry:
  assumes "send_request_finish repr s c w = Some (s', Inl e)" and "e \<noteq> CancelledError"
  shows "map_of (pending_requests s') (call_id c) = None"
proof -
  from assms(1) obtain s1 e1 where
    ex: "send_request_except s1 (call_id c) e1 = (s', e)"
    by (auto simp: send_request_finish_def split: option.splits sum.splits prod.splits)
  show ?thesis
  proof (cases "is_Exception e1")
    case True
    from send_request_except_removes [OF ex True] show ?thesis by simp
  next
    case False
    then have "e1 = CancelledError" by (cases e1) simp_all
    with ex assms(2) show ?thesis by (simp add: send_request_except_def)
  qed
qed

subsection \<open>The whole \<^verbatim>\<open>disconnect\<close> call, and the return of a resolved call\<close>






lemma delete_absent:
  assumes "map_of al k = None"
  shows "AList.delete k al = al"
  using assms by (simp add: map_of_eq_None_iff)

lemma send_request_finish_resolved:
  assumes r: "futures s h = Result d"
    and gone: "map_of (pending_requests s) k = None"
    and resp: "dict_get d ''response'' (JObj []) = Inr (JObj resp)"
  shows "send_request_finish repr s \<lparr>call_id = k, call_future = h\<rparr> Woken =
     Some (s,
       if map_of resp ''type'' = Some (JStr ''error'')
       then Inl (APIError (''API Error: '' @
              py_str repr (case map_of resp ''payload'' of
                             None \<Rightarrow> JStr ''Unknown error'' | Some p \<Rightarrow> p)))
       else Inr d)"
proof -
  have same: "s\<lparr>pending_requests := AList.delete k (pending_requests s)\<rparr> = s"
    by (simp add: delete_absent [OF gone])
  from wait_for_Result [OF r] check_response_obj [OF resp, of repr] same show ?thesis
    by (simp add: send_request_finish_def send_request_except_def)
qed

section \<open>Concurrent calls and out-of-order replies\<close>

text \<open>
  Claim C1. On a connected client, N \<^verbatim>\<open>send_request\<close> calls run up to their wait before
  any reply is processed; they get the next N ids. Then reply frames arrive whose ids
  are those ids in any order (\<open>kds\<close> lists the id and the \<^verbatim>\<open>data\<close> object of each
  frame). After the receive loop has processed them, the future of every call holds
  the \<^verbatim>\<open>data\<close> object of the one reply that carries the call's own id, the entry of the
  call has left the table, and the call, resumed, gives its caller that object: it
  returns it, or, when the object is tagged as an error, raises the \<^verbatim>\<open>APIError\<close> made of
  that object's own payload.
\<close>

theorem C1_replies_in_any_order:
  assumes conn: "websocket s = Some c" "is_open c" "running s"
    and iss: "issue s requests = (s1, cs)"
    and frames: "list_all2 (\<lambda>frame kd. is_reply frame (snd kd) (JInt (fst kd))) frames kds"
    and perm: "mset (map fst kds) = mset (map call_id cs)"
  shows "length cs = length requests \<and>
         map call_id cs = map (\<lambda>i. request_counter s + int i) [1 ..< Suc (length requests)] \<and>
         (\<forall>cl \<in> set cs. \<exists>d.
            (call_id cl, d) \<in> set kds \<and>
            (\<forall>d'. (call_id cl, d') \<in> set kds \<longrightarrow> d' = d) \<and>
            futures (deliver s1 frames) (call_future cl) = Result d \<and>
            wait_for (deliver s1 frames) (call_future cl) Woken = Some (deliver s1 frames, Inr d) \<and>
            map_of (pending_requests (deliver s1 frames)) (call_id cl) = None \<and>
            (\<forall>resp. dict_get d ''response'' (JObj []) = Inr (JObj resp) \<longrightarrow>
               (map_of resp ''type'' \<noteq> Some (JStr ''error'') \<longrightarrow>
                  send_request_finish repr (deliver s1 frames) cl Woken
                    = Some (deliver s1 frames, Inr d)) \<and>
               (map_of resp ''type'' = Some (JStr ''error'') \<longrightarrow>
                  send_request_finish repr (deliver s1 frames) cl Woken
                    = Some (deliver s1 frames,
                        Inl (APIError (''API Error: '' @
                          py_str repr (case map_of resp ''payload'' of
                                         None \<Rightarrow> JStr ''Unknown error'' | Some p \<Rightarrow> p)))))))"
proof -
  let ?s2 = "deliver s1 frames"
  from issue_live [OF conn, of requests] iss have
    len: "length cs = length requests"
    and ids: "map call_id cs = map (\<lambda>i. request_counter s + int i) [1 ..< Suc (length requests)]"
    and dist: "distinct (map call_id cs)" "distinct (map call_future cs)"
    and each: "\<forall>cl \<in> set cs.
        map_of (pending_requests s1) (call_id cl) = Some (call_future cl) \<and>
        futures s1 (call_future cl) = Pending"
    by auto
  from dist each have lv: "live s1 cs" by (simp add: live_def)
  from perm dist(1) have dk: "distinct (map fst kds)"
    by (metis mset_eq_imp_distinct_iff)
  from perm have sk: "set (map fst kds) = set (map call_id cs)"
    by (rule mset_eq_setD)
  then have sub: "fst ` set kds \<subseteq> call_id ` set cs" by simp
  note dl = deliver_live [OF frames lv dk sub]
  have res: "\<exists>d. (call_id cl, d) \<in> set kds \<and>
            (\<forall>d'. (call_id cl, d') \<in> set kds \<longrightarrow> d' = d) \<and>
            futures ?s2 (call_future cl) = Result d \<and>
            wait_for ?s2 (call_future cl) Woken = Some (?s2, Inr d) \<and>
            map_of (pending_requests ?s2) (call_id cl) = None \<and>
            (\<forall>resp. dict_get d ''response'' (JObj []) = Inr (JObj resp) \<longrightarrow>
               (map_of resp ''type'' \<noteq> Some (JStr ''error'') \<longrightarrow>
                  send_request_finish repr ?s2 cl Woken = Some (?s2, Inr d)) \<and>
               (map_of resp ''type'' = Some (JStr ''error'') \<longrightarrow>
                  send_request_finish repr ?s2 cl Woken
                    = Some (?s2,
                        Inl (APIError (''API Error: '' @
                          py_str repr (case map_of resp ''payload'' of
                                         None \<Rightarrow> JStr ''Unknown error'' | Some p \<Rightarrow> p))))))"
    if cl: "cl \<in> set cs" for cl
  proof -
    from cl sk have mem: "call_id cl \<in> fst ` set kds" by auto
    then obtain d where d: "(call_id cl, d) \<in> set kds" by auto
    have uniq: "\<forall>d'. (call_id cl, d') \<in> set kds \<longrightarrow> d' = d"
      using eq_key_imp_eq_value [OF dk _ d] by blast
    from dl d cl have r: "futures ?s2 (call_future cl) = Result d"
      by fastforce
    from dl mem have gone: "map_of (pending_requests ?s2) (call_id cl) = None"
      by simp
    have clr: "\<lparr>call_id = call_id cl, call_future = call_future cl\<rparr> = cl" by simp
    have fin: "\<forall>resp. dict_get d ''response'' (JObj []) = Inr (JObj resp) \<longrightarrow>
               (map_of resp ''type'' \<noteq> Some (JStr ''error'') \<longrightarrow>
                  send_request_finish repr ?s2 cl Woken = Some (?s2, Inr d)) \<and>
               (map_of resp ''type'' = Some (JStr ''error'') \<longrightarrow>
                  send_request_finish repr ?s2 cl Woken
                    = Some (?s2,
                        Inl (APIError (''API Error: '' @
                          py_str repr (case map_of resp ''payload'' of
                                         None \<Rightarrow> JStr ''Unknown error'' | Some p \<Rightarrow> p)))))"
    proof (intro allI impI)
      fix resp
      assume resp: "dict_get d ''response'' (JObj []) = Inr (JObj resp)"
      from send_request_finish_resolved [OF r gone resp, of repr]
      show "(map_of resp ''type'' \<noteq> Some (JStr ''error'') \<longrightarrow>
                  send_request_finish repr ?s2 cl Woken = Some (?s2, Inr d)) \<and>
               (map_of resp ''type'' = Some (JStr ''error'') \<longrightarrow>
                  send_request_finish repr ?s2 cl Woken
                    = Some (?s2,
                        Inl (APIError (''API Error: '' @
                          py_str repr (case map_of resp ''payload'' of
                                         None \<Rightarrow> JStr ''Unknown error'' | Some p \<Rightarrow> p)))))"
        unfolding clr by simp
    qed
    from d uniq r wait_for_Result [OF r] gone fin show ?thesis by blast
  qed
  from len ids res show ?thesis by blast
qed

theorem C1_replies_in_any_order_witness:
  "issue client1 [all_mids, all_mids] = (client3, [call1, call2]) \<and>
   send_request_finish plain_repr
      (deliver client3
        [reply_frame 2 ''info'' (JStr ''second''), reply_frame 1 ''info'' (JStr ''first'')])
      call1 Woken
     = Some (deliver client3
        [reply_frame 2 ''info'' (JStr ''second''), reply_frame 1 ''info'' (JStr ''first'')],
        Inr (reply_body 1 ''info'' (JStr ''first''))) \<and>
   send_request_finish plain_repr
      (deliver client3
        [reply_frame 2 ''info'' (JStr ''second''), reply_frame 1 ''info'' (JStr ''first'')])
      call2 Woken
     = Some (deliver client3
        [reply_frame 2 ''info'' (JStr ''second''), reply_frame 1 ''info'' (JStr ''first'')],
        Inr (reply_body 2 ''info'' (JStr ''second'')))"
proof -
  let ?frames = "[reply_frame 2 ''info'' (JStr ''second''), reply_frame 1 ''info'' (JStr ''first'')]"
  let ?kds = "[(2, reply_body 2 ''info'' (JStr ''second'')), (1, reply_body 1 ''info'' (JStr ''first''))]"
  let ?s2 = "deliver client3 ?frames"
  have fr: "list_all2 (\<lambda>frame kd. is_reply frame (snd kd) (JInt (fst kd))) ?frames ?kds"
    by (simp add: is_reply_def reply_frame_def reply_body_def dict_get_def)
  have pm: "mset (map fst ?kds) = mset (map call_id [call1, call2])"
    by (simp add: call1_def call2_def)
  have r1: "dict_get (reply_body 1 ''info'' (JStr ''first'')) ''response'' (JObj [])
      = Inr (JObj [(''type'', JStr ''info''), (''payload'', JStr ''first'')])"
    and r2: "dict_get (reply_body 2 ''info'' (JStr ''second'')) ''response'' (JObj [])
      = Inr (JObj [(''type'', JStr ''info''), (''payload'', JStr ''second'')])"
    by (simp_all add: reply_body_def dict_get_def)
  from C1_replies_in_any_order
    [OF client1_fields(1) _ client1_fields(2) issue_example fr pm, of plain_repr]
  have all: "\<forall>cl \<in> set [call1, call2]. \<exists>d.
            (call_id cl, d) \<in> set ?kds \<and>
            (\<forall>resp. dict_get d ''response'' (JObj []) = Inr (JObj resp) \<longrightarrow>
               (map_of resp ''type'' \<noteq> Some (JStr ''error'') \<longrightarrow>
                  send_request_finish plain_repr ?s2 cl Woken = Some (?s2, Inr d)))"
    by fastforce
  from all have "\<exists>d. (call_id call1, d) \<in> set ?kds \<and>
            (\<forall>resp. dict_get d ''response'' (JObj []) = Inr (JObj resp) \<longrightarrow>
               (map_of resp ''type'' \<noteq> Some (JStr ''error'') \<longrightarrow>
                  send_request_finish plain_repr ?s2 call1 Woken = Some (?s2, Inr d)))"
    by simp
  then have "\<forall>resp. dict_get (reply_body 1 ''info'' (JStr ''first'')) ''response'' (JObj [])
                = Inr (JObj resp) \<longrightarrow>
               (map_of resp ''type'' \<noteq> Some (JStr ''error'') \<longrightarrow>
                  send_request_finish plain_repr ?s2 call1 Woken
                    = Some (?s2, Inr (reply_body 1 ''info'' (JStr ''first''))))"
    by (auto simp: call1_def)
  with r1 have w1: "send_request_finish plain_repr ?s2 call1 Woken
        = Some (?s2, Inr (reply_body 1 ''info'' (JStr ''first'')))"
    by simp
  from all have "\<exists>d. (call_id call2, d) \<in> set ?kds \<and>
            (\<forall>resp. dict_get d ''response'' (JObj []) = Inr (JObj resp) \<longrightarrow>
               (map_of resp ''type'' \<noteq> Some (JStr ''error'') \<longrightarrow>
                  send_request_finish plain_repr ?s2 call2 Woken = Some (?s2, Inr d)))"
    by simp
  then have "\<forall>resp. dict_get (reply_body 2 ''info'' (JStr ''second'')) ''response'' (JObj [])
                = Inr (JObj resp) \<longrightarrow>
               (map_of resp ''type'' \<noteq> Some (JStr ''error'') \<longrightarrow>
                  send_request_finish plain_repr ?s2 call2 Woken
                    = Some (?s2, Inr (reply_body 2 ''info'' (JStr ''second''))))"
    by (auto simp: call2_def)
  with r2 have w2: "send_request_finish plain_repr ?s2 call2 Woken
        = Some (?s2, Inr (reply_body 2 ''info'' (JStr ''second'')))"
    by simp
  from issue_example w1 w2 show ?thesis by blast
qed

section \<open>Disconnecting\<close>




section \<open>Timeouts\<close>

text \<open>
  Claim C3, as the code has it. When the timeout elapses while the future is still
  pending, the call cancels the future, removes its entry from the table and raises an
  \<^verbatim>\<open>APIError\<close> (not a \<^verbatim>\<open>TimeoutError\<close>) whose message names the request id; a reply
  frame that arrives afterwards for that id leaves the client as it is.
\<close>

theorem C3_timeout_raises_APIError:
  assumes "futures s (call_future c) = Pending"
  shows "\<exists>s'. send_request_finish repr s c TimedOut =
            Some (s', Inl (APIError (''Request '' @ show_int (call_id c) @ '' timed out''))) \<and>
          map_of (pending_requests s') (call_id c) = None \<and>
          futures s' (call_future c) = Cancelled \<and>
          (\<forall>frame d rid. is_reply frame d rid \<and> key_of rid = Inr (Some (call_id c)) \<longrightarrow>
             process_message s' (Some frame) = Inr s')"
proof -
  let ?s' = "(cancel s (call_future c))\<lparr>pending_requests :=
      AList.delete (call_id c) (pending_requests (cancel s (call_future c)))\<rparr>"
  have 1: "send_request_finish repr s c TimedOut =
      Some (?s', Inl (APIError (''Request '' @ show_int (call_id c) @ '' timed out'')))"
    using assms by (simp add: send_request_finish_def wait_for_def send_request_except_def)
  have 2: "map_of (pending_requests ?s') (call_id c) = None"
    by (simp add: delete_conv)
  have 3: "futures ?s' (call_future c) = Cancelled"
    using assms by (simp add: cancel_def)
  have 4: "process_message ?s' (Some frame) = Inr ?s'"
    if "is_reply frame d rid" "key_of rid = Inr (Some (call_id c))" for frame d rid
  proof (rule process_message_dropped)
    from that 2 show "malformed_or_unmatched ?s' (Some frame)"
      by (simp add: malformed_or_unmatched_def is_reply_def)
  qed
  from 1 2 3 4 show ?thesis by blast
qed

theorem C3_timeout_raises_APIError_witness:
  "futures client2 (call_future call1) = Pending \<and>
   (\<exists>s'. send_request_finish plain_repr client2 call1 TimedOut =
            Some (s', Inl (APIError ''Request 1 timed out'')) \<and>
          map_of (pending_requests s') 1 = None \<and>
          process_message s' (Some (reply_frame 1 ''allMids'' JNull)) = Inr s')"
proof -
  have 1: "futures client2 (call_future call1) = Pending"
    by (simp add: client2_fields call1_def)
  have 2: "is_reply (reply_frame 1 ''allMids'' JNull) (reply_body 1 ''allMids'' JNull) (JInt 1)"
    by (simp add: is_reply_def reply_frame_def reply_body_def dict_get_def)
  have 3: "show_int 1 = ''1''"
    by (simp add: show_int_def show_nat.simps)
  from C3_timeout_raises_APIError [OF 1, of plain_repr] obtain s' where
    s': "send_request_finish plain_repr client2 call1 TimedOut =
            Some (s', Inl (APIError (''Request '' @ show_int (call_id call1) @ '' timed out'')))"
        "map_of (pending_requests s') (call_id call1) = None"
        "\<forall>frame d rid. is_reply frame d rid \<and> key_of rid = Inr (Some (call_id call1)) \<longrightarrow>
             process_message s' (Some frame) = Inr s'"
    by blast
  have 4: "key_of (JInt 1) = Inr (Some (call_id call1))"
    by (simp add: call1_def)
  from s'(3) 2 4 have "process_message s' (Some (reply_frame 1 ''allMids'' JNull)) = Inr s'"
    by blast
  with s'(1,2) 1 3 show ?thesis by (auto simp: call1_def)
qed

text \<open>
  The claim as the specification states it fails: the timed-out call of the example
  raises \<^verbatim>\<open>APIError("Request 1 timed out")\<close>, which is not a \<^verbatim>\<open>TimeoutError\<close>.
\<close>

theorem C3_timeout_is_not_TimeoutError:
  "map_option snd (send_request_finish plain_repr client2 call1 TimedOut)
     = Some (Inl (APIError ''Request 1 timed out'')) \<and>
   map_option snd (send_request_finish plain_repr client2 call1 TimedOut)
     \<noteq> Some (Inl TimeoutError)"
  by (simp add: send_request_finish_def wait_for_def send_request_except_def call1_def
      client2_fields show_int_def show_nat.simps)

section \<open>Subscribing and unsubscribing\<close>

text \<open>
  Claim C4, as the code has it. On an open connection \<^verbatim>\<open>subscribe_to_channel\<close> sends
  one frame and changes nothing else of the client; a \<^verbatim>\<open>subscriptionResponse\<close> frame
  leaves the client as it is; \<^verbatim>\<open>unsubscribe_from_channel\<close> with the same arguments
  sends one more frame. The client after both differs from the client before only in
  the two frames sent: there is no Subscription Registry.
\<close>

theorem C4_subscribe_only_transmits:
  assumes "websocket s = Some c" and "is_open c"
    and "dict_get ack ''channel'' JNull = Inr (JStr ''subscriptionResponse'')"
  shows "\<exists>s1. subscribe_to_channel s channel params = Inr s1 \<and>
           s1 = s\<lparr>websocket := Some (c\<lparr>sent := sent c @
                   [channel_frame ''subscribe'' channel params]\<rparr>)\<rparr> \<and>
           process_message s1 (Some ack) = Inr s1 \<and>
           unsubscribe_from_channel s1 channel params =
             Inr (s\<lparr>websocket := Some (c\<lparr>sent := sent c @
                   [channel_frame ''subscribe'' channel params,
                    channel_frame ''unsubscribe'' channel params]\<rparr>)\<rparr>)"
  using assms
  by (simp add: subscribe_to_channel_def unsubscribe_from_channel_def channel_send_open
      process_message_ack)

theorem C4_subscribe_only_transmits_witness:
  "unsubscribe_from_channel
     (client1\<lparr>websocket := Some \<lparr>is_open = True, sent =
         [channel_frame ''subscribe'' ''trades'' (Some [(''coin'', JStr ''SOL'')])]\<rparr>\<rparr>)
     ''trades'' (Some [(''coin'', JStr ''SOL'')])
   = Inr (client1\<lparr>websocket := Some \<lparr>is_open = True, sent =
         [channel_frame ''subscribe'' ''trades'' (Some [(''coin'', JStr ''SOL'')]),
          channel_frame ''unsubscribe'' ''trades'' (Some [(''coin'', JStr ''SOL'')])]\<rparr>\<rparr>)"
proof -
  have ack: "dict_get (JObj [(''channel'', JStr ''subscriptionResponse'')]) ''channel'' JNull
      = Inr (JStr ''subscriptionResponse'')"
    by (simp add: dict_get_def)
  from C4_subscribe_only_transmits [OF client1_fields(1) _ ack,
      of "''trades''" "Some [(''coin'', JStr ''SOL'')]"]
  show ?thesis by simp
qed

text \<open>
  The claim as the specification states it fails: subscribing records nothing. The
  client after \<^verbatim>\<open>subscribe_to_channel("trades", {"coin": "SOL"})\<close> is the client before
  with one more frame sent, and after the matching unsubscribe it has two.
\<close>

theorem C4_nothing_is_recorded:
  "subscribe_to_channel client1 ''trades'' (Some [(''coin'', JStr ''SOL'')])
     = Inr (client1\<lparr>websocket := Some \<lparr>is_open = True, sent =
         [JObj [(''method'', JStr ''subscribe''),
                (''subscription'', JObj [(''type'', JStr ''trades''), (''coin'', JStr ''SOL'')])]]\<rparr>\<rparr>) \<and>
   unsubscribe_from_channel
     (client1\<lparr>websocket := Some \<lparr>is_open = True, sent =
         [JObj [(''method'', JStr ''subscribe''),
                (''subscription'', JObj [(''type'', JStr ''trades''), (''coin'', JStr ''SOL'')])]]\<rparr>\<rparr>)
     ''trades'' (Some [(''coin'', JStr ''SOL'')])
     = Inr (client1\<lparr>websocket := Some \<lparr>is_open = True, sent =
         [JObj [(''method'', JStr ''subscribe''),
                (''subscription'', JObj [(''type'', JStr ''trades''), (''coin'', JStr ''SOL'')])],
          JObj [(''method'', JStr ''unsubscribe''),
                (''subscription'', JObj [(''type'', JStr ''trades''), (''coin'', JStr ''SOL'')])]]\<rparr>\<rparr>)"
  by (simp add: subscribe_to_channel_def unsubscribe_from_channel_def channel_send_def
      channel_frame_def dict_update_def client1_fields)

section \<open>Error replies\<close>

text \<open>
  Claim C5. A \<^verbatim>\<open>send_request\<close> call whose pending entry is matched by a reply frame is
  resolved with the reply's \<^verbatim>\<open>data\<close> object. If the \<^verbatim>\<open>response\<close> object of the reply
  has type \<^verbatim>\<open>"error"\<close>, the call raises an \<^verbatim>\<open>APIError\<close> whose message is
  \<^verbatim>\<open>"API Error: "\<close> followed by the text of the \<^verbatim>\<open>payload\<close> field; otherwise
  \<^verbatim>\<open>send_request\<close> returns the reply's \<^verbatim>\<open>data\<close> object and \<^verbatim>\<open>send_ws_info_request\<close>
  returns its \<^verbatim>\<open>response.payload\<close>.
\<close>

theorem C5_error_reply_raises_APIError:
  assumes entry: "map_of (pending_requests s) (call_id c) = Some (call_future c)"
    and pend: "futures s (call_future c) = Pending"
    and reply: "is_reply frame d rid" "key_of rid = Inr (Some (call_id c))"
    and resp: "dict_get d ''response'' (JObj []) = Inr (JObj resp)"
  shows "\<exists>s1. process_message s (Some frame) = Inr s1 \<and>
           futures s1 (call_future c) = Result d \<and>
           (map_of resp ''type'' = Some (JStr ''error'') \<longrightarrow>
              (\<exists>s2. send_request_finish repr s1 c Woken =
                 Some (s2, Inl (APIError (''API Error: '' @
                   py_str repr (case map_of resp ''payload'' of
                                  None \<Rightarrow> JStr ''Unknown error'' | Some p \<Rightarrow> p)))))) \<and>
           (map_of resp ''type'' \<noteq> Some (JStr ''error'') \<longrightarrow>
              send_request_finish repr s1 c Woken = Some (s1, Inr d) \<and>
              send_ws_info_request_finish repr s1 c Woken =
                Some (s1, Inr (case map_of resp ''payload'' of None \<Rightarrow> JObj [] | Some p \<Rightarrow> p)))"
proof -
  let ?s1 = "s\<lparr>pending_requests := AList.delete (call_id c) (pending_requests s),
               futures := (futures s)(call_future c := Result d)\<rparr>"
  have p: "process_message s (Some frame) = Inr ?s1"
    using process_message_matched [OF reply entry] pend by simp
  have f: "futures ?s1 (call_future c) = Result d" by simp
  have w: "wait_for ?s1 (call_future c) Woken = Some (?s1, Inr d)"
    using f by (rule wait_for_Result)
  have e: "map_of resp ''type'' = Some (JStr ''error'') \<longrightarrow>
      (\<exists>s2. send_request_finish repr ?s1 c Woken =
         Some (s2, Inl (APIError (''API Error: '' @
           py_str repr (case map_of resp ''payload'' of
                          None \<Rightarrow> JStr ''Unknown error'' | Some p \<Rightarrow> p)))))"
    using w check_response_obj [OF resp, of repr]
    by (simp add: send_request_finish_def send_request_except_def)
  have ok: "map_of resp ''type'' \<noteq> Some (JStr ''error'') \<longrightarrow>
      send_request_finish repr ?s1 c Woken = Some (?s1, Inr d)"
    using w check_response_obj [OF resp, of repr]
    by (simp add: send_request_finish_def)
  have ok2: "map_of resp ''type'' \<noteq> Some (JStr ''error'') \<longrightarrow>
      send_ws_info_request_finish repr ?s1 c Woken =
        Some (?s1, Inr (case map_of resp ''payload'' of None \<Rightarrow> JObj [] | Some p \<Rightarrow> p))"
    using ok resp by (auto simp: send_ws_info_request_finish_def dict_get_def split: option.splits)
  from p f e ok ok2 show ?thesis by blast
qed

theorem C5_error_reply_raises_APIError_witness:
  "\<exists>s1 s2. process_message client2
       (Some (reply_frame 1 ''error'' (JStr ''insufficient margin''))) = Inr s1 \<and>
     send_request_finish plain_repr s1 call1 Woken =
       Some (s2, Inl (APIError ''API Error: insufficient margin''))"
proof -
  have 1: "map_of (pending_requests client2) (call_id call1) = Some (call_future call1)"
    and 2: "futures client2 (call_future call1) = Pending"
    by (simp_all add: client2_fields call1_def)
  have 3: "is_reply (reply_frame 1 ''error'' (JStr ''insufficient margin''))
      (reply_body 1 ''error'' (JStr ''insufficient margin'')) (JInt 1)"
    by (simp add: is_reply_def reply_frame_def reply_body_def dict_get_def)
  have 4: "key_of (JInt 1) = Inr (Some (call_id call1))"
    by (simp add: call1_def)
  have 5: "dict_get (reply_body 1 ''error'' (JStr ''insufficient margin'')) ''response'' (JObj [])
      = Inr (JObj [(''type'', JStr ''error''), (''payload'', JStr ''insufficient margin'')])"
    by (simp add: reply_body_def dict_get_def)
  from C5_error_reply_raises_APIError [OF 1 2 3 4 5, of plain_repr]
  show ?thesis by (auto simp: py_str_def)
qed

section \<open>Cancellation of a waiting caller\<close>

text \<open>
  Claim C6 at a failing input. One call is suspended on a connected client and its task
  is cancelled from outside: \<^verbatim>\<open>CancelledError\<close> is not an \<^verbatim>\<open>Exception\<close>, so neither
  \<^verbatim>\<open>except\<close> clause of \<^verbatim>\<open>send_request\<close> runs, and the entry for id 1 stays in the table
  with a cancelled future.
\<close>

theorem C6_cancellation_leaves_entry:
  "map_option snd (send_request_finish plain_repr client2 call1 TaskCancelled)
     = Some (Inl CancelledError) \<and>
   map_of (pending_requests (step plain_repr client2 (EvFinish call1 TaskCancelled))) 1 = Some 0 \<and>
   futures (step plain_repr client2 (EvFinish call1 TaskCancelled)) 0 = Cancelled"
  by (simp add: step_def send_request_finish_def wait_for_def send_request_except_def call1_def
      client2_fields cancel_def)

section \<open>Malformed and unmatched frames\<close>

text \<open>
  Claim C7. A frame that is malformed, or a reply whose id is not in the Pending Request
  table, is processed without an exception and leaves the client, so every pending
  entry and every future, as it was; the receive loop goes on to the next \<^verbatim>\<open>recv()\<close>.
\<close>

theorem C7_bad_frame_is_swallowed:
  assumes "malformed_or_unmatched s m"
  shows "process_message s m = Inr s \<and>
         handler_resume s (Message m) = handler_loop s \<and>
         (running s \<and> websocket s \<noteq> None \<longrightarrow> handler_resume s (Message m) = Awaiting s)"
  using process_message_dropped [OF assms]
  by (simp add: handler_resume_def handler_loop_def)

theorem C7_bad_frame_is_swallowed_witness:
  "malformed_or_unmatched client2 (Some (reply_frame 7 ''allMids'' JNull)) \<and>
   process_message client2 (Some (reply_frame 7 ''allMids'' JNull)) = Inr client2 \<and>
   handler_resume client2 (Message (Some (reply_frame 7 ''allMids'' JNull))) = Awaiting client2"
proof -
  have h: "malformed_or_unmatched client2 (Some (reply_frame 7 ''allMids'' JNull))"
    by (simp add: malformed_or_unmatched_def reply_frame_def dict_get_def client2_fields)
  from C7_bad_frame_is_swallowed [OF h] h show ?thesis
    by (simp add: client2_fields handler_loop_def)
qed

section \<open>Request ids\<close>

text \<open>
  Claim C8. The counter of a new client is 0. Along any run of one client the ids drawn
  by its \<^verbatim>\<open>send_request\<close> calls are 1, 2, 3, ... in this order, and the counter is their
  number. Every client reached is well formed, so the id of a new call is not the key
  of an entry already in the table, and the keys of the table stay distinct. A client
  is a value of its own: the ids it draws depend on its own run only.
\<close>

theorem C8_ids_count_up_from_one:
  assumes "s = run repr (WebSocketClient_init url env key) evs"
  shows "request_counter (WebSocketClient_init url env key) = 0 \<and>
         ids_drawn repr (WebSocketClient_init url env key) evs =
           map int [1 ..< Suc (length (ids_drawn repr (WebSocketClient_init url env key) evs))] \<and>
         request_counter s = int (length (ids_drawn repr (WebSocketClient_init url env key) evs)) \<and>
         wf s \<and>
         (\<forall>request s' request' cl.
            send_request_start s request = (s', request', Inr cl) \<longrightarrow>
              call_id cl = request_counter s + 1 \<and>
              request_counter s' = call_id cl \<and>
              map_of (pending_requests s) (call_id cl) = None \<and>
              map_of (pending_requests s') (call_id cl) = Some (call_future cl) \<and>
              distinct (map fst (pending_requests s')))"
proof -
  have wfs: "wf s" unfolding assms by (rule wf_run [OF wf_init])
  have fresh: "call_id cl = request_counter s + 1 \<and>
      request_counter s' = call_id cl \<and>
      map_of (pending_requests s) (call_id cl) = None \<and>
      map_of (pending_requests s') (call_id cl) = Some (call_future cl) \<and>
      distinct (map fst (pending_requests s'))"
    if st: "send_request_start s request = (s', request', Inr cl)" for request s' request' cl
  proof -
    from send_request_start_Inr [OF st] obtain c where
      c: "websocket s = Some c" "is_open c" "running s" by blast
    from send_request_start_open [OF c(1,3,2), of request] st
    have cl: "cl = \<lparr>call_id = request_counter s + 1, call_future = next_future s\<rparr>"
      and s': "pending_requests s' =
          AList.update (request_counter s + 1) (next_future s) (pending_requests s)"
        "request_counter s' = request_counter s + 1"
      by auto
    from wf_send_request_start [OF wfs, of request] st have "wf s'" by simp
    then have "distinct (map fst (pending_requests s'))" by (simp add: wf_def)
    with cl s' wf_next_id_free [OF wfs] show ?thesis by (simp add: update_conv)
  qed
  have c0: "request_counter (WebSocketClient_init url env key) = 0"
    by (simp add: WebSocketClient_init_def)
  have ids: "ids_drawn repr (WebSocketClient_init url env key) evs =
      map int [1 ..< Suc (length (ids_drawn repr (WebSocketClient_init url env key) evs))]"
    and cnt: "request_counter s =
      int (length (ids_drawn repr (WebSocketClient_init url env key) evs))"
    using ids_drawn_init [of repr url env key evs] unfolding assms by blast+
  from c0 ids cnt wfs fresh show ?thesis by blast
qed

theorem C8_ids_count_up_from_one_witness:
  "ids_drawn plain_repr (WebSocketClient_init ''wss://api.hypereth.io/v1/hl/ws'' ''testnet'' None)
     [EvConnect (Inr ()), EvSend all_mids, EvSend all_mids] = [1, 2] \<and>
   request_counter (run plain_repr
     (WebSocketClient_init ''wss://api.hypereth.io/v1/hl/ws'' ''testnet'' None)
     [EvConnect (Inr ()), EvSend all_mids, EvSend all_mids]) = 2"
proof -
  let ?evs = "[EvConnect (Inr ()), EvSend all_mids, EvSend all_mids]"
  have len: "length (ids_drawn plain_repr client0 ?evs) = 2"
    by (simp add: step_examples client1_fields client2_fields)
  have upt: "map int [1 ..< Suc 2] = [1, 2]"
    by (simp add: upt_rec)
  from C8_ids_count_up_from_one [OF refl, where repr = plain_repr
      and url = "''wss://api.hypereth.io/v1/hl/ws''" and env = "''testnet''"
      and key = None and evs = ?evs]
  have "ids_drawn plain_repr client0 ?evs =
      map int [1 ..< Suc (length (ids_drawn plain_repr client0 ?evs))]"
    and "request_counter (run plain_repr client0 ?evs) =
      int (length (ids_drawn plain_repr client0 ?evs))"
    unfolding client0_def by blast+
  then have "ids_drawn plain_repr client0 ?evs = [1, 2]"
    and "request_counter (run plain_repr client0 ?evs) = 2"
    unfolding len upt by simp_all
  then show ?thesis unfolding client0_def by blast
qed

section \<open>A request that brings its own id\<close>

text \<open>
  Claim C9. When the request dictionary already has an \<^verbatim>\<open>"id"\<close> key, the dictionary is
  sent as it is, and the future is registered under the new counter value. A reply
  that carries the dictionary's id, when that id does not select the counter value,
  leaves this call's future pending and its entry in the table. The client is well
  formed, as every reachable client is.
\<close>

theorem C9_preset_id_is_not_correlated:
  assumes conn: "websocket s = Some c" "is_open c" "running s"
    and wfs: "wf s"
    and has_id: "map_of request ''id'' = Some v"
    and start: "send_request_start s request = (s1, request', r)"
  shows "\<exists>cl. r = Inr cl \<and> request' = request \<and>
           websocket s1 = Some (c\<lparr>sent := sent c @ [JObj request]\<rparr>) \<and>
           call_id cl = request_counter s + 1 \<and>
           map_of (pending_requests s1) (call_id cl) = Some (call_future cl) \<and>
           futures s1 (call_future cl) = Pending \<and>
           (\<forall>frame d s2.
              is_reply frame d v \<and> key_of v \<noteq> Inr (Some (call_id cl)) \<and>
              process_message s1 (Some frame) = Inr s2 \<longrightarrow>
                futures s2 (call_future cl) = Pending \<and>
                map_of (pending_requests s2) (call_id cl) = Some (call_future cl) \<and>
                wait_for s2 (call_future cl) Woken = None)"
proof -
  let ?k = "request_counter s + 1" and ?h = "next_future s"
  let ?cl = "\<lparr>call_id = ?k, call_future = ?h\<rparr>"
  from has_id have mem: "''id'' \<in> fst ` set request"
    by (metis map_of_eq_None_iff option.distinct(1))
  from send_request_start_open [OF conn(1,3,2), of request] start mem
  have r: "r = Inr ?cl" and req: "request' = request"
    and s1: "s1 = s\<lparr>request_counter := ?k,
       pending_requests := AList.update ?k ?h (pending_requests s),
       futures := (futures s)(?h := Pending),
       next_future := Suc ?h,
       websocket := Some (c\<lparr>sent := sent c @ [JObj request]\<rparr>)\<rparr>"
    by simp_all
  have entry: "map_of (pending_requests s1) ?k = Some ?h"
    and fut: "futures s1 ?h = Pending"
    and ws: "websocket s1 = Some (c\<lparr>sent := sent c @ [JObj request]\<rparr>)"
    by (simp_all add: s1 update_conv)
  have late: "futures s2 ?h = Pending \<and> map_of (pending_requests s2) ?k = Some ?h"
    if rep: "is_reply frame d v" and ne: "key_of v \<noteq> Inr (Some ?k)"
      and pm: "process_message s1 (Some frame) = Inr s2" for frame d s2
  proof (cases "\<exists>k h'. key_of v = Inr (Some k) \<and> map_of (pending_requests s1) k = Some h'")
    case True
    then obtain k h' where k: "key_of v = Inr (Some k)"
      and h': "map_of (pending_requests s1) k = Some h'" by blast
    from k ne have kne: "k \<noteq> ?k" by auto
    with h' have "map_of (pending_requests s) k = Some h'"
      by (simp add: s1 update_conv)
    from wf_handle_fresh [OF wfs this] have hne: "h' \<noteq> ?h" by simp
    from process_message_matched [OF rep k h'] pm
    have "s2 = s1\<lparr>pending_requests := AList.delete k (pending_requests s1),
            futures := (if fut_done (futures s1 h') then futures s1
                        else (futures s1)(h' := Result d))\<rparr>" by simp
    with kne hne entry fut show ?thesis by (simp add: delete_conv)
  next
    case False
    with rep have "malformed_or_unmatched s1 (Some frame)"
      by (auto simp: malformed_or_unmatched_def is_reply_def split: sum.splits option.splits)
    from process_message_dropped [OF this] pm have "s2 = s1" by simp
    with entry fut show ?thesis by simp
  qed
  have "\<forall>frame d s2.
      is_reply frame d v \<and> key_of v \<noteq> Inr (Some ?k) \<and>
      process_message s1 (Some frame) = Inr s2 \<longrightarrow>
        futures s2 ?h = Pending \<and>
        map_of (pending_requests s2) ?k = Some ?h \<and>
        wait_for s2 ?h Woken = None"
    using late by (auto simp: wait_for_def)
  with r req ws entry fut show ?thesis by simp
qed

theorem C9_preset_id_is_not_correlated_witness:
  "websocket client1 = Some \<lparr>is_open = True, sent = []\<rparr> \<and> wf client1 \<and>
   (\<exists>cl s1. send_request_start client1 [(''id'', JInt 5), (''method'', JStr ''post'')]
              = (s1, [(''id'', JInt 5), (''method'', JStr ''post'')], Inr cl) \<and>
            call_id cl = 1 \<and>
            websocket s1 = Some \<lparr>is_open = True,
               sent = [JObj [(''id'', JInt 5), (''method'', JStr ''post'')]]\<rparr> \<and>
            (\<forall>s2. process_message s1 (Some (reply_frame 5 ''action'' JNull)) = Inr s2 \<longrightarrow>
                  wait_for s2 (call_future cl) Woken = None))"
proof -
  let ?req = "[(''id'', JInt 5), (''method'', JStr ''post'')]"
  have 1: "map_of ?req ''id'' = Some (JInt 5)" by simp
  have 2: "send_request_start client1 ?req =
      (fst (send_request_start client1 ?req), fst (snd (send_request_start client1 ?req)),
       snd (snd (send_request_start client1 ?req)))" by simp
  have 3: "is_reply (reply_frame 5 ''action'' JNull) (reply_body 5 ''action'' JNull) (JInt 5)"
    by (simp add: is_reply_def reply_frame_def reply_body_def dict_get_def)
  from C9_preset_id_is_not_correlated
    [OF client1_fields(1) _ client1_fields(2) wf_client1 1 2]
  obtain cl where cl: "snd (snd (send_request_start client1 ?req)) = Inr cl"
    "fst (snd (send_request_start client1 ?req)) = ?req"
    "websocket (fst (send_request_start client1 ?req)) =
       Some (\<lparr>is_open = True, sent = []\<rparr>\<lparr>sent := sent \<lparr>is_open = True, sent = []\<rparr> @ [JObj ?req]\<rparr>)"
    "call_id cl = request_counter client1 + 1"
    "\<forall>frame d s2. is_reply frame d (JInt 5) \<and> key_of (JInt 5) \<noteq> Inr (Some (call_id cl)) \<and>
        process_message (fst (send_request_start client1 ?req)) (Some frame) = Inr s2 \<longrightarrow>
          futures s2 (call_future cl) = Pending \<and>
          map_of (pending_requests s2) (call_id cl) = Some (call_future cl) \<and>
          wait_for s2 (call_future cl) Woken = None"
    by auto
  from cl(4) have id1: "call_id cl = 1" by (simp add: client1_fields)
  then have ne: "key_of (JInt 5) \<noteq> Inr (Some (call_id cl))" by simp
  from cl(5) 3 ne
  have late: "\<forall>s2. process_message (fst (send_request_start client1 ?req))
       (Some (reply_frame 5 ''action'' JNull)) = Inr s2 \<longrightarrow>
       wait_for s2 (call_future cl) Woken = None"
    by blast
  have "send_request_start client1 ?req = (fst (send_request_start client1 ?req), ?req, Inr cl)"
    using cl(1,2) by (metis prod.collapse)
  with id1 cl(3) late client1_fields(1) wf_client1 show ?thesis
    by (intro conjI exI [of _ cl] exI [of _ "fst (send_request_start client1 ?req)"]) simp_all
qed

section \<open>The id written into the caller's dictionary\<close>

text \<open>
  Claim C10. When the request dictionary has no \<^verbatim>\<open>"id"\<close> key, a \<^verbatim>\<open>send_request\<close>
  call that passes the connection check adds the generated id to the caller's own
  dictionary (as its last key) before the frame is sent, and changes no other key.
\<close>

theorem C10_id_inserted_into_callers_dict:
  assumes "websocket s = Some c" and "running s"
    and "''id'' \<notin> fst ` set request"
    and "send_request_start s request = (s', request', r)"
  shows "request' = request @ [(''id'', JInt (request_counter s + 1))] \<and>
         map_of request' ''id'' = Some (JInt (request_counter s + 1)) \<and>
         (\<forall>k. k \<noteq> ''id'' \<longrightarrow> map_of request' k = map_of request k) \<and>
         (is_open c \<longrightarrow> websocket s' = Some (c\<lparr>sent := sent c @ [JObj request']\<rparr>))"
proof -
  have req: "request' = request @ [(''id'', JInt (request_counter s + 1))]"
  proof (cases "is_open c")
    case True
    from send_request_start_open [OF assms(1,2) True, of request] assms(3,4)
    show ?thesis by (simp add: update_fresh)
  next
    case False
    from send_request_start_closed [OF assms(1,2) False, of request] assms(3,4)
    show ?thesis by (simp add: update_fresh)
  qed
  have out: "is_open c \<longrightarrow> websocket s' = Some (c\<lparr>sent := sent c @ [JObj request']\<rparr>)"
  proof
    assume "is_open c"
    from send_request_start_open [OF assms(1,2) this, of request] assms(3,4)
    show "websocket s' = Some (c\<lparr>sent := sent c @ [JObj request']\<rparr>)"
      by auto
  qed
  from req assms(3) out show ?thesis
    by (simp add: map_of_snoc_fresh del: map_of_append)
qed

theorem C10_id_inserted_into_callers_dict_witness:
  "websocket client1 = Some \<lparr>is_open = True, sent = []\<rparr> \<and> running client1 \<and>
   ''id'' \<notin> fst ` set all_mids \<and>
   fst (snd (send_request_start client1 all_mids)) = all_mids @ [(''id'', JInt 1)]"
  using C10_id_inserted_into_callers_dict
    [of client1 "\<lparr>is_open = True, sent = []\<rparr>" all_mids
      "fst (send_request_start client1 all_mids)"
      "fst (snd (send_request_start client1 all_mids))"
      "snd (snd (send_request_start client1 all_mids))"]
  by (simp add: client1_fields all_mids_no_id)

end
